theory Spec2Isabelle
  imports Main "HOL-Library.List_Lexorder"
begin

section \<open>Python strings\<close>

text \<open>
  A Python \<open>str\<close> is a sequence of Unicode code points. The program's labels, separators
  and messages are Chinese, so a string is modelled as the list of its code points and
  not as a list of bytes: \<open>strip\<close>, \<open>startswith\<close>, \<open>split\<close>, the regular expressions and
  SQLite's \<open>LIKE\<close> all work code point by code point.
\<close>

type_synonym codepoint = nat
type_synonym str = "codepoint list"

text \<open>An ASCII literal as a Python string.\<close>

definition asc :: "string \<Rightarrow> str" where
  "asc cs = map of_char cs"

text \<open>
  \<open>str.isspace\<close> for one character, which is also the class \<open>\s\<close> of the \<open>re\<close> module on
  \<open>str\<close> patterns and the set that \<open>str.strip()\<close> removes (Unicode 14, CPython 3.11):
  U+0009..U+000D, U+001C..U+0020, U+0085, U+00A0, U+1680, U+2000..U+200A, U+2028, U+2029,
  U+202F, U+205F, U+3000.
\<close>

definition isspace :: "codepoint \<Rightarrow> bool" where
  "isspace c \<longleftrightarrow>
     (9 \<le> c \<and> c \<le> 13) \<or> (28 \<le> c \<and> c \<le> 32) \<or> c = 133 \<or> c = 160 \<or> c = 5760 \<or>
     (8192 \<le> c \<and> c \<le> 8202) \<or> c = 8232 \<or> c = 8233 \<or> c = 8239 \<or> c = 8287 \<or> c = 12288"

text \<open>
  The class \<open>\d\<close> of the \<open>re\<close> module on \<open>str\<close> patterns is every character of the Unicode
  category Nd, not only \<open>0\<close>..\<open>9\<close>, and \<open>int()\<close> accepts the same characters. In Unicode 14
  they are 66 runs of ten consecutive code points, each run holding the digits 0 to 9 in
  order; the list gives the first code point of every run (48 is ASCII \<open>0\<close>, 65296 the
  full-width zero).
\<close>

definition decimal_bases :: "codepoint list" where
  "decimal_bases =
     [48, 1632, 1776, 1984, 2406, 2534, 2662, 2790, 2918, 3046, 3174, 3302, 3430, 3558,
      3664, 3792, 3872, 4160, 4240, 6112, 6160, 6470, 6608, 6784, 6800, 6992, 7088, 7232,
      7248, 42528, 43216, 43264, 43472, 43504, 43600, 44016, 65296, 66720, 68912, 69734,
      69872, 69942, 70096, 70384, 70736, 70864, 71248, 71360, 71472, 71904, 72016, 72784,
      73040, 73120, 92768, 92864, 93008, 120782, 120792, 120802, 120812, 120822, 123200,
      123632, 125264, 130032]"

definition decimal :: "codepoint \<Rightarrow> nat option" where
  "decimal c = map_option (\<lambda>b. c - b) (find (\<lambda>b. b \<le> c \<and> c < b + 10) decimal_bases)"

definition isdecimal :: "codepoint \<Rightarrow> bool" where
  "isdecimal c \<longleftrightarrow> decimal c \<noteq> None"

text \<open>
  \<open>int(g)\<close> for a string of decimal characters. Python raises ValueError on any other
  string; the program calls \<open>int\<close> only on groups captured by \<open>\d{..}\<close>, which hold decimal
  characters only (lemma \<open>re_digits_SomeD\<close> below), so a character without a decimal
  value never reaches the default of this function.
\<close>

definition int_of_str :: "str \<Rightarrow> nat" where
  "int_of_str g = foldl (\<lambda>a c. 10 * a + (case decimal c of Some v \<Rightarrow> v | None \<Rightarrow> 0)) 0 g"

text \<open>\<open>str(n)\<close>, also the f-string \<open>f"{n}"\<close>, for a non-negative integer.\<close>

fun str_of_nat :: "nat \<Rightarrow> str" where
  "str_of_nat n = (if n < 10 then [48 + n] else str_of_nat (n div 10) @ [48 + n mod 10])"

declare str_of_nat.simps [simp del]

text \<open>\<open>str.zfill(w)\<close> on a digit string: what the padded directives of strftime produce.\<close>

definition zfill :: "nat \<Rightarrow> str \<Rightarrow> str" where
  "zfill w s = replicate (w - length s) 48 @ s"

definition strip :: "str \<Rightarrow> str" where
  "strip s = rev (dropWhile isspace (rev (dropWhile isspace s)))"

definition startswith :: "str \<Rightarrow> str \<Rightarrow> bool" where
  "startswith s p \<longleftrightarrow> take (length p) s = p"

text \<open>\<open>sep.join(xs)\<close>.\<close>

fun join :: "str \<Rightarrow> str list \<Rightarrow> str" where
  "join sep [] = []"
| "join sep [x] = x"
| "join sep (x # y # ys) = x @ sep @ join sep (y # ys)"

text \<open>The characters the program names: U+5E74 (year), U+6708 (month), U+65E5 (day),
  the hyphen, the full-width colon U+FF1A, the line feed and the space.\<close>

definition nian :: codepoint where "nian = 24180"
definition yue :: codepoint where "yue = 26376"
definition ri :: codepoint where "ri = 26085"
definition hyphen :: codepoint where "hyphen = 45"
definition colon_fw :: codepoint where "colon_fw = 65306"
definition newline :: str where "newline = [10]"
definition space :: str where "space = [32]"

section \<open>The date patterns\<close>

text \<open>
  The four compiled patterns are
  \<^verbatim>\<open>
  DATE_RE_CN_FULL    ^\s*(?P<y>\d{4})Y(?P<m>\d{1,2})M(?P<d>\d{1,2})D\s*$
  DATE_RE_STD_FULL   ^\s*(?P<y>\d{4})-(?P<m>\d{1,2})-(?P<d>\d{1,2})\s*$
  DATE_RE_CN_PREFIX  ^\s*(?P<y>\d{4})Y(?P<m>\d{1,2})M(?P<d>\d{1,2})D
  DATE_RE_STD_PREFIX ^\s*(?P<y>\d{4})-(?P<m>\d{1,2})-(?P<d>\d{1,2})
  \<close>
  with Y, M, D standing for U+5E74, U+6708, U+65E5, and all are used with \<open>match\<close>, at
  position 0. Each quantifier is greedy and the engine backtracks, but here backtracking
  never finds a match that the greedy choice misses: what follows \<open>\s*\<close> is a digit, and no
  white space is a digit; what follows \<open>\d{1,2}\<close> is a separator, white space or the end, and
  a second digit given back is none of these. So the matcher below takes the longest run
  each time and goes on. Without the MULTILINE flag \<open>$\<close> matches at the end of the string
  or before a line feed that ends it; as the line feed is white space, \<open>\s*$\<close> says that
  only white space is left.
\<close>

definition re_ws :: "str \<Rightarrow> str" where
  "re_ws s = dropWhile isspace s"

definition re_digits :: "nat \<Rightarrow> nat \<Rightarrow> str \<Rightarrow> (str \<times> str) option" where
  "re_digits lo hi s =
     (let g = takeWhile isdecimal (take hi s)
      in if lo \<le> length g then Some (g, drop (length g) s) else None)"

definition re_char :: "codepoint \<Rightarrow> str \<Rightarrow> str option" where
  "re_char c s = (case s of [] \<Rightarrow> None | x # r \<Rightarrow> if x = c then Some r else None)"

text \<open>A match object: the three named groups and \<open>s[m.end():]\<close>.\<close>

record date_match =
  group_y :: str
  group_m :: str
  group_d :: str
  after_end :: str

text \<open>The part the four patterns share; \<open>sep3\<close> is the character after the day, if any.\<close>

definition date_re :: "codepoint \<Rightarrow> codepoint \<Rightarrow> codepoint option \<Rightarrow> str \<Rightarrow> date_match option" where
  "date_re sep1 sep2 sep3 s =
     Option.bind (re_digits 4 4 (re_ws s)) (\<lambda>(y, r1).
     Option.bind (re_char sep1 r1) (\<lambda>r2.
     Option.bind (re_digits 1 2 r2) (\<lambda>(m, r3).
     Option.bind (re_char sep2 r3) (\<lambda>r4.
     Option.bind (re_digits 1 2 r4) (\<lambda>(d, r5).
     Option.bind (case sep3 of None \<Rightarrow> Some r5 | Some c \<Rightarrow> re_char c r5) (\<lambda>r6.
       Some \<lparr>group_y = y, group_m = m, group_d = d, after_end = r6\<rparr>))))))"

definition to_end :: "date_match option \<Rightarrow> date_match option" where
  "to_end r = (case r of None \<Rightarrow> None
     | Some m \<Rightarrow> if list_all isspace (after_end m) then Some (m\<lparr>after_end := []\<rparr>) else None)"

definition DATE_RE_CN_FULL :: "str \<Rightarrow> date_match option" where
  "DATE_RE_CN_FULL s = to_end (date_re nian yue (Some ri) s)"

definition DATE_RE_STD_FULL :: "str \<Rightarrow> date_match option" where
  "DATE_RE_STD_FULL s = to_end (date_re hyphen hyphen None s)"

definition DATE_RE_CN_PREFIX :: "str \<Rightarrow> date_match option" where
  "DATE_RE_CN_PREFIX s = date_re nian yue (Some ri) s"

definition DATE_RE_STD_PREFIX :: "str \<Rightarrow> date_match option" where
  "DATE_RE_STD_PREFIX s = date_re hyphen hyphen None s"

section \<open>The date functions\<close>

definition pad2 :: "nat \<Rightarrow> str" where
  "pad2 n = zfill 2 (str_of_nat n)"

text \<open>
  The body both branches of \<open>normalize_datetime\<close> share: the three groups through \<open>int\<close>,
  rendered with the Chinese separators, then the stripped rest of the string after one
  space when it is not empty. Nothing in it raises ValueError, so the handler of the
  source is dead code and has no branch here.
\<close>

definition date_part :: "date_match \<Rightarrow> str" where
  "date_part m =
     str_of_nat (int_of_str (group_y m)) @ [nian] @ str_of_nat (int_of_str (group_m m)) @ [yue]
       @ str_of_nat (int_of_str (group_d m)) @ [ri]"

definition with_suffix :: "date_match \<Rightarrow> str" where
  "with_suffix m =
     (let suffix = strip (after_end m)
      in if suffix \<noteq> [] then date_part m @ space @ suffix else date_part m)"

definition normalize_datetime :: "str \<Rightarrow> str option" where
  "normalize_datetime date_str =
     (let s = strip date_str in
      case DATE_RE_CN_PREFIX s of Some m \<Rightarrow> Some (with_suffix m)
      | None \<Rightarrow>
     (case DATE_RE_STD_PREFIX s of Some m \<Rightarrow> Some (with_suffix m)
      | None \<Rightarrow> None))"

text \<open>
  \<open>datetime(y, m, d)\<close> raises ValueError unless the year is in 1..9999, the month in 1..12
  and the day in the month (proleptic Gregorian calendar); \<open>None\<close> is the ValueError.
\<close>

definition is_leap :: "nat \<Rightarrow> bool" where
  "is_leap y \<longleftrightarrow> y mod 4 = 0 \<and> (y mod 100 \<noteq> 0 \<or> y mod 400 = 0)"

definition days_in_month :: "nat \<Rightarrow> nat \<Rightarrow> nat" where
  "days_in_month y m =
     (if m = 2 then (if is_leap y then 29 else 28)
      else if m = 4 \<or> m = 6 \<or> m = 9 \<or> m = 11 then 30 else 31)"

definition datetime :: "nat \<Rightarrow> nat \<Rightarrow> nat \<Rightarrow> (nat \<times> nat \<times> nat) option" where
  "datetime y m d =
     (if 1 \<le> y \<and> y \<le> 9999 \<and> 1 \<le> m \<and> m \<le> 12 \<and> 1 \<le> d \<and> d \<le> days_in_month y m
      then Some (y, m, d) else None)"

text \<open>
  \<open>strftime("%Y-%m-%d")\<close>, with the year on four digits as the library documents it (a C
  library that does not pad a year below 1000 differs there; no statement below is about
  such a year).
\<close>

definition strftime_ymd :: "nat \<times> nat \<times> nat \<Rightarrow> str" where
  "strftime_ymd dt =
     (case dt of (y, m, d) \<Rightarrow> zfill 4 (str_of_nat y) @ [hyphen] @ pad2 m @ [hyphen] @ pad2 d)"

definition strict_date :: "date_match \<Rightarrow> str option" where
  "strict_date m =
     map_option strftime_ymd
       (datetime (int_of_str (group_y m)) (int_of_str (group_m m)) (int_of_str (group_d m)))"

definition normalize_date_prefix :: "str \<Rightarrow> str option" where
  "normalize_date_prefix date_in =
     (let s = strip date_in in
      case DATE_RE_CN_FULL s of Some m \<Rightarrow> strict_date m
      | None \<Rightarrow>
     (case DATE_RE_STD_FULL s of Some m \<Rightarrow> strict_date m
      | None \<Rightarrow> None))"

section \<open>Reading a document\<close>

text \<open>
  The labels of the five recognised lines, U+4F1A U+8BAE U+65F6 U+95F4 (meeting time),
  U+4F1A U+8BAE U+5730 U+70B9 (meeting place), U+53C2 U+4F1A U+4EBA U+5458 (attendees),
  U+4F1A U+8BAE U+8BAE U+9898 (meeting topic), U+4F1A U+8BAE U+5185 U+5BB9 (meeting
  content), and the three messages of the extractor: U+6587 U+6863 U+4E3A U+7A7A (the
  document is empty), "a required field is missing (time/place/attendees)" and "the format
  of the meeting time is not right", with the prefix of the message for a file that
  cannot be opened.
\<close>

definition label_date :: str where "label_date = [20250, 35758, 26102, 38388]"
definition label_location :: str where "label_location = [20250, 35758, 22320, 28857]"
definition label_attendees :: str where "label_attendees = [21442, 20250, 20154, 21592]"
definition label_topic :: str where "label_topic = [20250, 35758, 35758, 39064]"
definition label_content :: str where "label_content = [20250, 35758, 20869, 23481]"

definition msg_empty_doc :: str where
  "msg_empty_doc = [25991, 26723, 20026, 31354]"

definition msg_missing_field :: str where
  "msg_missing_field =
     [32570, 23569, 24517, 35201, 23383, 27573, 65288, 20250, 35758, 26102, 38388, 47,
      22320, 28857, 47, 20154, 21592, 65289]"

definition msg_bad_date :: str where
  "msg_bad_date = [20250, 35758, 26102, 38388, 26684, 24335, 19981, 27491, 30830]"

definition msg_unparsable :: str where
  "msg_unparsable = [26080, 27861, 35299, 26512, 87, 111, 114, 100, 65306]"

text \<open>
  What the program reads of a paragraph of the document library: its text, and for each
  of its runs the \<open>w:type\<close> attribute of every \<open>w:br\<close> element found in the run (\<open>None\<close> when
  the element has no such attribute).
\<close>

record docx_paragraph =
  para_text :: str
  para_runs :: "str option list list"

definition has_page_break :: "docx_paragraph \<Rightarrow> bool" where
  "has_page_break para = list_ex (list_ex (\<lambda>br. br = Some (asc ''page''))) (para_runs para)"

text \<open>
  The loop of \<open>split_docx_by_page\<close> over the paragraphs, with its two variables
  \<open>meetings\<close> and \<open>current_lines\<close>, and the flush after the loop.
\<close>

fun split_loop :: "docx_paragraph list \<Rightarrow> str list list \<Rightarrow> str list \<Rightarrow> str list list \<times> str list" where
  "split_loop [] meetings current_lines = (meetings, current_lines)"
| "split_loop (para # paras) meetings current_lines =
     (let text = strip (para_text para);
          current_lines = (if text \<noteq> [] then current_lines @ [text] else current_lines)
      in if has_page_break para \<and> current_lines \<noteq> []
         then split_loop paras (meetings @ [current_lines]) []
         else split_loop paras meetings current_lines)"

definition split_docx_by_page :: "docx_paragraph list \<Rightarrow> str list list" where
  "split_docx_by_page doc =
     (case split_loop doc [] [] of
        (meetings, current_lines) \<Rightarrow>
          if current_lines \<noteq> [] then meetings @ [current_lines] else meetings)"

text \<open>
  \<open>safe_extract\<close>: \<open>ln.split(colon, 1)\<close> has a second part exactly when the full-width
  colon occurs in the line, and that part is what follows its first occurrence.
\<close>

definition safe_extract :: "str \<Rightarrow> str" where
  "safe_extract ln =
     (if colon_fw \<in> set ln then strip (tl (dropWhile (\<lambda>c. c \<noteq> colon_fw) ln)) else [])"

text \<open>
  The variables of the loop over \<open>lines[1:]\<close>. The three that share a name with a key of
  the record carry the suffix \<open>_str\<close> here.
\<close>

record fields =
  date_str :: str
  location_str :: str
  attendees_str :: str
  topic_str :: str
  content_lines :: "str list"
  content_started :: bool

definition fields_init :: fields where
  "fields_init =
     \<lparr>date_str = [], location_str = [], attendees_str = [], topic_str = [],
      content_lines = [], content_started = False\<rparr>"

definition scan_line :: "fields \<Rightarrow> str \<Rightarrow> fields" where
  "scan_line f ln =
     (if startswith ln label_date then f\<lparr>date_str := safe_extract ln\<rparr>
      else if startswith ln label_location then f\<lparr>location_str := safe_extract ln\<rparr>
      else if startswith ln label_attendees then f\<lparr>attendees_str := safe_extract ln\<rparr>
      else if startswith ln label_topic then f\<lparr>topic_str := safe_extract ln\<rparr>
      else if startswith ln label_content then f\<lparr>content_started := True\<rparr>
      else if content_started f then f\<lparr>content_lines := content_lines f @ [ln]\<rparr>
      else f)"

definition scan_lines :: "str list \<Rightarrow> fields" where
  "scan_lines lns = foldl scan_line fields_init lns"

text \<open>
  The dictionary of one meeting. Every producer in the program sets all seven keys; the
  store reads \<open>topic\<close> with \<open>rec.get("topic", "")\<close>, so that key alone may be absent.
\<close>

record meeting =
  title :: str
  date :: str
  location :: str
  attendees :: str
  topic :: "str option"
  content :: str
  raw_text :: str

type_synonym parse_result = "meeting option \<times> str option \<times> str option"

text \<open>The body of the loop of \<open>parse_docx_to_records\<close> for one line-group.\<close>

definition parse_lines :: "str list \<Rightarrow> parse_result" where
  "parse_lines lines =
     (let raw = join newline lines in
      case lines of
        [] \<Rightarrow> (None, Some msg_empty_doc, Some raw)
      | ttl # rest \<Rightarrow>
          let f = scan_lines rest in
          if date_str f = [] \<or> location_str f = [] \<or> attendees_str f = []
          then (None, Some msg_missing_field, Some raw)
          else
            (case normalize_datetime (date_str f) of
               None \<Rightarrow> (None, Some msg_bad_date, Some raw)
             | Some date_norm \<Rightarrow>
                 if date_norm = [] then (None, Some msg_bad_date, Some raw)
                 else
                   (Some \<lparr>title = ttl, date = date_norm, location = location_str f,
                          attendees = attendees_str f, topic = Some (topic_str f),
                          content = strip (join newline (content_lines f)), raw_text = raw\<rparr>,
                    None, None)))"

text \<open>
  The document as the library hands it over: the text of the exception when the file
  cannot be read, the paragraphs otherwise.
\<close>

definition parse_docx_to_records :: "str + docx_paragraph list \<Rightarrow> parse_result list" where
  "parse_docx_to_records doc =
     (case doc of
        Inl e \<Rightarrow> [(None, Some (msg_unparsable @ e), None)]
      | Inr paras \<Rightarrow> map parse_lines (split_docx_by_page paras))"

section \<open>The store\<close>

text \<open>
  The table \<open>meetings\<close>: an integer key given by the engine, seven text columns, and
  \<open>UNIQUE(title, date)\<close>. With \<open>AUTOINCREMENT\<close> the engine remembers the largest key it ever
  gave (\<open>sqlite_sequence\<close>), so a key is not used again after a delete.
\<close>

record row =
  row_id :: int
  row_title :: str
  row_date :: str
  row_location :: str
  row_attendees :: str
  row_topic :: str
  row_content :: str
  row_raw_text :: str

record db =
  meetings :: "row list"
  sqlite_sequence :: int

text \<open>
  The messages of the store: "duplicate record (same meeting name + meeting time),
  skipped." and the prefixes "insert failed:" and "delete failed:" that are followed by
  the text of the exception.
\<close>

definition msg_duplicate :: str where
  "msg_duplicate =
     [37325, 22797, 35760, 24405, 65288, 21516, 8220, 20250, 35758, 21517, 31216, 32, 43, 32,
      20250, 35758, 26102, 38388, 8221, 65289, 24050, 36339, 36807, 12290]"

definition msg_insert_failed :: str where
  "msg_insert_failed = [25554, 20837, 22833, 36133, 65306]"

definition msg_delete_failed :: str where
  "msg_delete_failed = [21024, 38500, 22833, 36133, 65306]"

definition next_id :: "db \<Rightarrow> int" where
  "next_id d = fold max (map row_id (meetings d)) (sqlite_sequence d) + 1"

definition row_of :: "int \<Rightarrow> meeting \<Rightarrow> row" where
  "row_of i rec =
     \<lparr>row_id = i, row_title = title rec, row_date = date rec, row_location = location rec,
      row_attendees = attendees rec,
      row_topic = (case topic rec of Some t \<Rightarrow> t | None \<Rightarrow> []),
      row_content = content rec, row_raw_text = raw_text rec\<rparr>"

text \<open>
  The methods return Python's pair \<open>(ok, message)\<close>; the model returns the store as well.
  Their first argument stands for the engine: \<open>Some e\<close> when executing the statement raises
  an exception other than IntegrityError (a locked or unwritable file, say) whose text is
  \<open>e\<close>, \<open>None\<close> when the statement runs. All columns hold text in every record the program
  builds, so of the constraints only \<open>UNIQUE(title, date)\<close> can raise IntegrityError; a
  statement that raises changes nothing.
\<close>

definition insert_meeting :: "str option \<Rightarrow> db \<Rightarrow> meeting \<Rightarrow> (bool \<times> str option) \<times> db" where
  "insert_meeting fault d rec =
     (case fault of
        Some e \<Rightarrow> ((False, Some (msg_insert_failed @ e)), d)
      | None \<Rightarrow>
          if list_ex (\<lambda>r. row_title r = title rec \<and> row_date r = date rec) (meetings d)
          then ((False, Some msg_duplicate), d)
          else ((True, None),
                \<lparr>meetings = meetings d @ [row_of (next_id d) rec], sqlite_sequence = next_id d\<rparr>))"

definition delete_meeting :: "str option \<Rightarrow> db \<Rightarrow> int \<Rightarrow> (bool \<times> str option) \<times> db" where
  "delete_meeting fault d rec_id =
     (case fault of
        Some e \<Rightarrow> ((False, Some (msg_delete_failed @ e)), d)
      | None \<Rightarrow> ((True, None), d\<lparr>meetings := filter (\<lambda>r. row_id r \<noteq> rec_id) (meetings d)\<rparr>))"

definition get_id_by_title_date :: "db \<Rightarrow> str \<Rightarrow> str \<Rightarrow> int option" where
  "get_id_by_title_date d ttl dt =
     map_option row_id (find (\<lambda>r. row_title r = ttl \<and> row_date r = dt) (meetings d))"

text \<open>
  SQLite's \<open>LIKE\<close> without an escape character: \<open>%\<close> (37) stands for any run of
  characters, \<open>_\<close> (95) for any one character, and the letters A to Z match their lower
  case; every other character matches itself only.
\<close>

definition lower_ascii :: "codepoint \<Rightarrow> codepoint" where
  "lower_ascii c = (if 65 \<le> c \<and> c \<le> 90 then c + 32 else c)"

fun sql_like :: "str \<Rightarrow> str \<Rightarrow> bool" where
  "sql_like [] [] = True"
| "sql_like [] (c # t) = False"
| "sql_like (p # ps) [] = (p = 37 \<and> sql_like ps [])"
| "sql_like (p # ps) (c # t) =
     (if p = 37 then sql_like ps (c # t) \<or> sql_like (p # ps) t
      else (p = 95 \<or> lower_ascii p = lower_ascii c) \<and> sql_like ps t)"

text \<open>
  \<open>ORDER BY date DESC, id DESC\<close>. The column \<open>date\<close> is text with the default collation,
  which compares the encoded bytes; on UTF-8 that is the lexicographic order of the code
  points. Keys are unique, so the order of the result is determined.
\<close>

definition sorts_before :: "row \<Rightarrow> row \<Rightarrow> bool" where
  "sorts_before a b \<longleftrightarrow>
     row_date b < row_date a \<or> (row_date a = row_date b \<and> row_id b \<le> row_id a)"

fun insert_sorted :: "row \<Rightarrow> row list \<Rightarrow> row list" where
  "insert_sorted r [] = [r]"
| "insert_sorted r (x # xs) = (if sorts_before r x then r # x # xs else x # insert_sorted r xs)"

definition order_by_date_id_desc :: "row list \<Rightarrow> row list" where
  "order_by_date_id_desc rs = foldr insert_sorted rs []"

text \<open>
  \<open>segmented_search_exact_six\<close>: the clauses are pairs of a column and a pattern, in the
  order the source appends them; with no clause the condition is \<open>1=1\<close>. The source tests
  \<open>if prefix:\<close>, which a \<open>None\<close> and an empty string both fail.
\<close>

definition like_clause :: "(row \<Rightarrow> str) \<Rightarrow> str \<Rightarrow> ((row \<Rightarrow> str) \<times> str) list" where
  "like_clause field kw = (if strip kw \<noteq> [] then [(field, [37] @ strip kw @ [37])] else [])"

definition date_clause :: "str \<Rightarrow> ((row \<Rightarrow> str) \<times> str) list" where
  "date_clause date_kw =
     (if strip date_kw \<noteq> [] then
        (case normalize_date_prefix (strip date_kw) of
           None \<Rightarrow> []
         | Some prefix \<Rightarrow> if prefix \<noteq> [] then [(row_date, prefix @ [37])] else [])
      else [])"

definition where_sql :: "((row \<Rightarrow> str) \<times> str) list \<Rightarrow> row \<Rightarrow> bool" where
  "where_sql clauses r = list_all (\<lambda>(field, pat). sql_like pat (field r)) clauses"

definition segmented_search_exact_six ::
    "db \<Rightarrow> str \<Rightarrow> str \<Rightarrow> str \<Rightarrow> str \<Rightarrow> str \<Rightarrow> str \<Rightarrow> row list" where
  "segmented_search_exact_six d title_kw date_kw location_kw attendees_kw topic_kw content_kw =
     (let clauses =
            like_clause row_title title_kw @ like_clause row_location location_kw @
            like_clause row_attendees attendees_kw @ like_clause row_topic topic_kw @
            like_clause row_content content_kw @ date_clause date_kw
      in order_by_date_id_desc (filter (where_sql clauses) (meetings d)))"

text \<open>
  The import of one document into the store, as \<open>on_import_clicked\<close> does it for each
  file: every record the parser returns without an error is inserted; the counts and the
  error log of the dialog are left out.
\<close>

definition import_records :: "db \<Rightarrow> parse_result list \<Rightarrow> db" where
  "import_records d rs =
     fold (\<lambda>res d. case res of
                     (Some rec, None, _) \<Rightarrow> snd (insert_meeting None d rec)
                   | _ \<Rightarrow> d) rs d"

definition db_empty :: db where
  "db_empty = \<lparr>meetings = [], sqlite_sequence = 0\<rparr>"

section \<open>Notions used in the statements\<close>

text \<open>
  A line starts with one of the five labels; the non-blank stripped paragraph texts of a
  document, in order; and \<open>str.lstrip()\<close> and \<open>str.rstrip()\<close>, the two halves of \<open>strip\<close>.
\<close>

definition is_label :: "str \<Rightarrow> bool" where
  "is_label ln \<longleftrightarrow> startswith ln label_date \<or> startswith ln label_location \<or>
     startswith ln label_attendees \<or> startswith ln label_topic \<or> startswith ln label_content"

definition kept_lines :: "docx_paragraph list \<Rightarrow> str list" where
  "kept_lines doc = filter (\<lambda>t. t \<noteq> []) (map (\<lambda>p. strip (para_text p)) doc)"

definition lstrip :: "str \<Rightarrow> str" where
  "lstrip s = dropWhile isspace s"

definition rstrip :: "str \<Rightarrow> str" where
  "rstrip s = rev (dropWhile isspace (rev s))"

section \<open>Example data\<close>

text \<open>A record as the manual entry form builds it, used in the examples below.\<close>

definition rec0 :: meeting where
  "rec0 =
     \<lparr>title = asc ''weekly'', date = asc ''2024'' @ [nian] @ asc ''3'' @ [yue] @ asc ''5'' @ [ri],
      location = asc ''room 3'', attendees = asc ''A, B'', topic = Some (asc ''budget''),
      content = asc ''plan'', raw_text = asc ''weekly''\<rparr>"

definition db1 :: db where
  "db1 = \<lparr>meetings = [row_of 1 rec0], sqlite_sequence = 1\<rparr>"

text \<open>
  Three small documents: one blank paragraph, three paragraphs without a page break (the
  last has a column break), and three paragraphs of which the first two carry a page
  break.
\<close>

definition doc_blank :: "docx_paragraph list" where
  "doc_blank = [\<lparr>para_text = [], para_runs = []\<rparr>]"

definition doc_plain :: "docx_paragraph list" where
  "doc_plain = [\<lparr>para_text = asc '' a '', para_runs = [[None]]\<rparr>, \<lparr>para_text = asc '' '', para_runs = []\<rparr>,
                \<lparr>para_text = asc ''b'', para_runs = [[Some (asc ''column'')]]\<rparr>]"

definition doc_pages :: "docx_paragraph list" where
  "doc_pages = [\<lparr>para_text = [], para_runs = [[Some (asc ''page'')]]\<rparr>,
                \<lparr>para_text = asc ''a'', para_runs = [[], [None, Some (asc ''page'')]]\<rparr>,
                \<lparr>para_text = asc '' b '', para_runs = [[None]]\<rparr>]"

text \<open>
  Two line-groups: one whose last line, after the content marker, is a second "meeting
  place" line, and one with no "meeting place" line and a date that is no date.
\<close>

definition lines_late_label :: "str list" where
  "lines_late_label =
     [asc ''T'', label_date @ [colon_fw] @ asc ''2024-1-2'', label_location @ [colon_fw] @ asc ''A'',
      label_attendees @ [colon_fw] @ asc ''P'', label_content @ [colon_fw], asc ''x'',
      label_location @ [colon_fw] @ asc ''B'']"

definition lines_no_location :: "str list" where
  "lines_no_location =
     [asc ''T'', label_date @ [colon_fw] @ asc ''tomorrow'', label_attendees @ [colon_fw] @ asc ''P'']"

text \<open>
  A document of two meetings separated by a page break, the first held on 5 March 2024
  and the second on 1 December 2024, the store after its import, and the two rows that
  store holds.
\<close>

definition plain_para :: "str \<Rightarrow> docx_paragraph" where
  "plain_para t = \<lparr>para_text = t, para_runs = []\<rparr>"

definition break_para :: "str \<Rightarrow> docx_paragraph" where
  "break_para t = \<lparr>para_text = t, para_runs = [[Some (asc ''page'')]]\<rparr>"

definition date_0305_cn :: str where
  "date_0305_cn = asc ''2024'' @ [nian] @ asc ''3'' @ [yue] @ asc ''5'' @ [ri]"

definition date_1201_cn :: str where
  "date_1201_cn = asc ''2024'' @ [nian] @ asc ''12'' @ [yue] @ asc ''1'' @ [ri]"

definition lines_march :: "str list" where
  "lines_march =
     [asc ''A'', label_date @ [colon_fw] @ date_0305_cn, label_location @ [colon_fw] @ asc ''R'',
      label_attendees @ [colon_fw] @ asc ''P'']"

definition lines_december :: "str list" where
  "lines_december =
     [asc ''B'', label_date @ [colon_fw] @ asc ''2024-12-01'', label_location @ [colon_fw] @ asc ''R'',
      label_attendees @ [colon_fw] @ asc ''P'']"

definition doc_two :: "docx_paragraph list" where
  "doc_two = map plain_para (butlast lines_march) @ [break_para (last lines_march)]
             @ map plain_para lines_december"

definition db_two :: db where
  "db_two = import_records db_empty (parse_docx_to_records (Inr doc_two))"

definition row_march :: row where
  "row_march =
     \<lparr>row_id = 1, row_title = asc ''A'', row_date = date_0305_cn, row_location = asc ''R'',
      row_attendees = asc ''P'', row_topic = [], row_content = [],
      row_raw_text = join newline lines_march\<rparr>"

definition row_december :: row where
  "row_december =
     \<lparr>row_id = 2, row_title = asc ''B'', row_date = date_1201_cn, row_location = asc ''R'',
      row_attendees = asc ''P'', row_topic = [], row_content = [],
      row_raw_text = join newline lines_december\<rparr>"

section \<open>Properties\<close>

subsection \<open>The store\<close>

lemma msg_duplicate_not_failed: "msg_duplicate \<noteq> msg_insert_failed @ e"
  by (simp add: msg_duplicate_def msg_insert_failed_def)

lemma insert_first: "insert_meeting None db_empty rec0 = ((True, None), db1)"
  by (simp add: insert_meeting_def db_empty_def next_id_def db1_def)

text \<open>
  C5. When the table holds a row with the title and the date of the record, and the
  engine runs the statement, \<open>insert_meeting\<close> returns \<open>(False, duplicate message)\<close> and the
  store is as before: no second row, no key used. The pair differs from the pair returned
  for any other exception of the engine, whatever its text.
\<close>

theorem insert_meeting_duplicate:
  assumes "r \<in> set (meetings d)" and "row_title r = title rec" and "row_date r = date rec"
  shows "insert_meeting None d rec = ((False, Some msg_duplicate), d)
       \<and> fst (insert_meeting None d rec) \<noteq> fst (insert_meeting (Some e) d' rec')"
proof -
  from assms have "list_ex (\<lambda>r. row_title r = title rec \<and> row_date r = date rec) (meetings d)"
    unfolding list_ex_iff by blast
  then have res: "insert_meeting None d rec = ((False, Some msg_duplicate), d)"
    by (simp add: insert_meeting_def)
  moreover have "fst (insert_meeting (Some e) d' rec') = (False, Some (msg_insert_failed @ e))"
    by (simp add: insert_meeting_def)
  ultimately show ?thesis
    using msg_duplicate_not_failed [of e] by simp
qed

text \<open>
  The record \<open>rec0\<close> is inserted into the empty store, then a record with the same title
  and date and another location: the second insert reports the duplicate and the store
  still holds the one row.
\<close>

theorem insert_meeting_duplicate_witness:
  "snd (insert_meeting None db_empty rec0) = db1
   \<and> row_of 1 rec0 \<in> set (meetings db1)
   \<and> row_title (row_of 1 rec0) = title (rec0\<lparr>location := asc ''room 4''\<rparr>)
   \<and> row_date (row_of 1 rec0) = date (rec0\<lparr>location := asc ''room 4''\<rparr>)
   \<and> insert_meeting None db1 (rec0\<lparr>location := asc ''room 4''\<rparr>) = ((False, Some msg_duplicate), db1)"
  using insert_meeting_duplicate [of "row_of 1 rec0" db1 "rec0\<lparr>location := asc ''room 4''\<rparr>"]
  by (simp add: insert_first row_of_def db1_def)

text \<open>
  C8. When the engine runs the statement, \<open>delete_meeting\<close> returns \<open>(True, None)\<close> for
  every store and every key, whether a row has that key or not; when no row has it the
  store is unchanged.
\<close>

theorem delete_meeting_idempotent:
  "fst (delete_meeting None d rec_id) = (True, None)
   \<and> (rec_id \<notin> row_id ` set (meetings d) \<longrightarrow> snd (delete_meeting None d rec_id) = d)"
proof -
  have "rec_id \<notin> row_id ` set (meetings d) \<Longrightarrow>
        filter (\<lambda>r. row_id r \<noteq> rec_id) (meetings d) = meetings d"
    by (induction "meetings d") (auto simp: filter_id_conv)
  then show ?thesis by (auto simp: delete_meeting_def)
qed

theorem delete_meeting_idempotent_witness:
  "7 \<notin> row_id ` set (meetings db1) \<and> delete_meeting None db1 7 = ((True, None), db1)"
  using delete_meeting_idempotent [of db1 7]
  by (simp add: row_of_def prod_eq_iff db1_def)

subsection \<open>The splitter\<close>

lemma split_loop_nonempty:
  assumes "[] \<notin> set ms"
  shows "[] \<notin> set (fst (split_loop doc ms cur))"
  using assms
proof (induction doc arbitrary: ms cur)
  case Nil
  then show ?case by simp
next
  case (Cons p doc)
  define cur' where "cur' = (if strip (para_text p) \<noteq> [] then cur @ [strip (para_text p)] else cur)"
  show ?case
  proof (cases "has_page_break p \<and> cur' \<noteq> []")
    case True
    then have "[] \<notin> set (ms @ [cur'])" using Cons.prems by auto
    from Cons.IH [OF this] have "[] \<notin> set (fst (split_loop doc (ms @ [cur']) []))" .
    moreover have "split_loop (p # doc) ms cur = split_loop doc (ms @ [cur']) []"
      using True unfolding cur'_def by (auto simp: Let_def)
    ultimately show ?thesis by simp
  next
    case False
    from Cons.IH [OF Cons.prems] have "[] \<notin> set (fst (split_loop doc ms cur'))" .
    moreover have "split_loop (p # doc) ms cur = split_loop doc ms cur'"
      using False unfolding cur'_def by (auto simp: Let_def)
    ultimately show ?thesis by simp
  qed
qed

lemma split_groups_nonempty: "[] \<notin> set (split_docx_by_page doc)"
proof -
  obtain ms cur where sl: "split_loop doc [] [] = (ms, cur)" by (cases "split_loop doc [] []")
  have "[] \<notin> set (fst (split_loop doc [] []))" by (rule split_loop_nonempty) simp
  with sl have "[] \<notin> set ms" by simp
  with sl show ?thesis by (simp add: split_docx_by_page_def)
qed

lemma split_loop_no_break:
  "\<forall>p \<in> set doc. \<not> has_page_break p \<Longrightarrow>
   split_loop doc ms cur = (ms, cur @ kept_lines doc)"
  by (induction doc arbitrary: cur) (auto simp: Let_def kept_lines_def)

lemma split_loop_blank:
  "\<forall>p \<in> set doc. strip (para_text p) = [] \<Longrightarrow> split_loop doc ms [] = (ms, [])"
  by (induction doc) (auto simp: Let_def)

lemma split_blank: "\<forall>p \<in> set doc. strip (para_text p) = [] \<Longrightarrow> split_docx_by_page doc = []"
  by (simp add: split_docx_by_page_def split_loop_blank)

lemma parse_lines_not_empty_error: "lines \<noteq> [] \<Longrightarrow> fst (snd (parse_lines lines)) \<noteq> Some msg_empty_doc"
  by (cases lines) (auto simp: parse_lines_def Let_def msg_empty_doc_def msg_missing_field_def msg_bad_date_def split: option.splits)

lemma parse_lines_empty: "parse_lines [] = (None, Some msg_empty_doc, Some [])"
  by (simp add: parse_lines_def)

lemma strip_a: "strip (asc '' a '') = asc ''a''"
  by (simp add: strip_def asc_def isspace_def)
lemma strip_sp: "strip (asc '' '') = []"
  by (simp add: strip_def asc_def isspace_def)
lemma strip_b: "strip (asc ''b'') = asc ''b''"
  by (simp add: strip_def asc_def isspace_def)
lemma strip_b2: "strip (asc '' b '') = asc ''b''"
  by (simp add: strip_def asc_def isspace_def)
lemma strip_a2: "strip (asc ''a'') = asc ''a''"
  by (simp add: strip_def asc_def isspace_def)
lemma strip_Nil: "strip [] = []"
  by (simp add: strip_def)
lemma asc_ne: "asc ''a'' \<noteq> []" "asc ''b'' \<noteq> []"
  by (simp_all add: asc_def)
lemma page_ne: "asc ''column'' \<noteq> asc ''page''"
  by (simp add: asc_def)

lemma split_pages: "split_docx_by_page doc_pages = [[asc ''a''], [asc ''b'']]"
  by (simp add: split_docx_by_page_def doc_pages_def has_page_break_def strip_Nil strip_a2 strip_b2 asc_ne)

text \<open>
  C9. Every line-group the splitter returns is non-empty, so no result of
  \<open>parse_docx_to_records\<close> on a document that could be read carries the "document is
  empty" message; and a document without a non-blank paragraph gives no group at all.
\<close>

theorem splitter_groups_nonempty:
  "(\<forall>g \<in> set (split_docx_by_page doc). g \<noteq> [])
   \<and> (\<forall>res \<in> set (parse_docx_to_records (Inr doc)). fst (snd res) \<noteq> Some msg_empty_doc)
   \<and> ((\<forall>p \<in> set doc. strip (para_text p) = []) \<longrightarrow> split_docx_by_page doc = [])"
proof -
  have a: "\<forall>g \<in> set (split_docx_by_page doc). g \<noteq> []"
    using split_groups_nonempty [of doc] by metis
  have "\<forall>g \<in> set (split_docx_by_page doc). fst (snd (parse_lines g)) \<noteq> Some msg_empty_doc"
    using a parse_lines_not_empty_error by blast
  then have b: "\<forall>res \<in> set (parse_docx_to_records (Inr doc)). fst (snd res) \<noteq> Some msg_empty_doc"
    by (simp add: parse_docx_to_records_def)
  show ?thesis using a b split_blank [of doc] by blast
qed

theorem splitter_groups_nonempty_witness:
  "split_docx_by_page doc_pages = [[asc ''a''], [asc ''b'']]
   \<and> list_all (\<lambda>res. fst (snd res) \<noteq> Some msg_empty_doc) (parse_docx_to_records (Inr doc_pages))
   \<and> list_all (\<lambda>p. strip (para_text p) = []) doc_blank \<and> split_docx_by_page doc_blank = []"
  using splitter_groups_nonempty [of doc_pages] splitter_groups_nonempty [of doc_blank]
  by (simp add: split_pages doc_blank_def strip_Nil list_all_iff)

text \<open>
  C7, as the claim states it, fails on a document whose only paragraph is blank: it has
  no page break and the splitter returns no group, not one.
\<close>

theorem split_no_break_counterexample:
  "\<not> has_page_break \<lparr>para_text = [], para_runs = []\<rparr>
   \<and> split_docx_by_page [\<lparr>para_text = [], para_runs = []\<rparr>] = []"
  by (simp add: has_page_break_def split_docx_by_page_def strip_Nil)

text \<open>
  C7, amended. For a document without a page break the splitter returns the one group
  of all non-blank paragraph texts, stripped, in their order, when there is such a
  paragraph, and no group when there is none.
\<close>

theorem split_no_break:
  assumes "\<forall>p \<in> set doc. \<not> has_page_break p"
  shows "split_docx_by_page doc = (if kept_lines doc = [] then [] else [kept_lines doc])"
  using split_loop_no_break [OF assms, of "[]" "[]"]
  by (simp add: split_docx_by_page_def)

theorem split_no_break_witness:
  "list_all (\<lambda>p. \<not> has_page_break p) doc_plain
   \<and> split_docx_by_page doc_plain = [[asc ''a'', asc ''b'']]"
proof -
  have h: "\<forall>p \<in> set doc_plain. \<not> has_page_break p"
    by (simp add: doc_plain_def has_page_break_def page_ne)
  have k: "kept_lines doc_plain = [asc ''a'', asc ''b'']"
    by (simp add: kept_lines_def doc_plain_def strip_a strip_sp strip_b asc_ne)
  show ?thesis using h split_no_break [OF h] by (simp add: k list_all_iff)
qed

subsection \<open>The extractor\<close>

lemmas label_defs = label_date_def label_location_def label_attendees_def label_topic_def label_content_def

lemma scan_line_content:
  "content_lines (scan_line f ln) =
     (if content_started f \<and> \<not> is_label ln then content_lines f @ [ln] else content_lines f)"
  by (simp add: scan_line_def is_label_def)

lemma scan_line_started:
  "content_started (scan_line f ln) \<longleftrightarrow> content_started f \<or> startswith ln label_content"
  by (auto simp: scan_line_def startswith_def label_defs)

lemma marker_is_label: "startswith ln label_content \<Longrightarrow> is_label ln"
  by (simp add: is_label_def)

lemma scan_content_fold:
  "content_lines (foldl scan_line f lns) =
     content_lines f @
       filter (\<lambda>ln. \<not> is_label ln)
         (if content_started f then lns else dropWhile (\<lambda>ln. \<not> startswith ln label_content) lns)"
proof (induction lns arbitrary: f)
  case Nil
  then show ?case by simp
next
  case (Cons ln lns)
  show ?case
    by (simp add: Cons.IH scan_line_content scan_line_started marker_is_label)
qed

lemma scan_lines_content:
  "content_lines (scan_lines lns) =
     filter (\<lambda>ln. \<not> is_label ln) (dropWhile (\<lambda>ln. \<not> startswith ln label_content) lns)"
  by (simp add: scan_lines_def scan_content_fold fields_init_def)

lemma parse_lines_Some:
  assumes "parse_lines lines = (Some rec, e, r)"
  obtains ttl lns where "lines = ttl # lns" and "content rec = strip (join newline (content_lines (scan_lines lns)))"
    and "title rec = ttl" and "location rec = location_str (scan_lines lns)"
  using assms
  by (cases lines) (auto simp: parse_lines_def Let_def split: if_splits option.splits)

text \<open>
  C3, amended. The content of an extracted record is made of the lines after the first
  content marker that start with none of the five labels, in their order, joined by line
  feeds, the joined text then stripped. A line after the marker that starts with a label
  is not part of the content.
\<close>

theorem content_after_marker:
  assumes "parse_lines (ttl # lns) = (Some rec, e, r)"
  shows "content rec =
           strip (join newline
             (filter (\<lambda>ln. \<not> is_label ln) (dropWhile (\<lambda>ln. \<not> startswith ln label_content) lns)))"
  using assms by (auto elim!: parse_lines_Some simp: scan_lines_content)

lemma location_fold:
  "\<forall>ln \<in> set lns. \<not> startswith ln label_location \<Longrightarrow>
   location_str (foldl scan_line f lns) = location_str f"
  by (induction lns arbitrary: f) (auto simp: scan_line_def)

lemma no_location_line:
  "\<forall>ln \<in> set lns. \<not> startswith ln label_location \<Longrightarrow> location_str (scan_lines lns) = []"
  by (simp add: scan_lines_def location_fold fields_init_def)

text \<open>
  C6. For a non-empty line-group whose scan leaves the date, the location or the
  attendees empty, the extractor returns the "required field missing" message with the
  lines joined by line feeds as raw text, whatever the date value is: the date format is
  looked at only after this check, and its message is another one. By
  \<open>no_location_line\<close> a group without a "meeting place" line is such a group.
\<close>

theorem parse_lines_missing_field:
  assumes "lines \<noteq> []"
    and "date_str (scan_lines (tl lines)) = [] \<or> location_str (scan_lines (tl lines)) = []
         \<or> attendees_str (scan_lines (tl lines)) = []"
  shows "parse_lines lines = (None, Some msg_missing_field, Some (join newline lines))
         \<and> msg_missing_field \<noteq> msg_bad_date"
  using assms by (cases lines) (auto simp: parse_lines_def Let_def msg_missing_field_def msg_bad_date_def)

lemmas str_eval = strip_def asc_def isspace_def startswith_def safe_extract_def colon_fw_def
  newline_def space_def

lemmas date_eval = normalize_datetime_def DATE_RE_CN_PREFIX_def DATE_RE_STD_PREFIX_def date_re_def
  re_ws_def re_digits_def re_char_def isdecimal_def decimal_def decimal_bases_def with_suffix_def
  date_part_def int_of_str_def str_of_nat.simps nian_def yue_def ri_def hyphen_def Let_def

lemma scan_late_label:
  "scan_lines (tl lines_late_label) =
     \<lparr>date_str = asc ''2024-1-2'', location_str = asc ''B'', attendees_str = asc ''P'',
      topic_str = [], content_lines = [asc ''x''], content_started = True\<rparr>"
  by (simp add: lines_late_label_def scan_lines_def scan_line_def fields_init_def label_defs str_eval)

lemma date_2024_1_2:
  "normalize_datetime (asc ''2024-1-2'') = Some (asc ''2024'' @ [nian] @ asc ''1'' @ [yue] @ asc ''2'' @ [ri])"
  by (simp add: date_eval str_eval)

lemma date_tomorrow: "normalize_datetime (asc ''tomorrow'') = None"
  by (simp add: date_eval str_eval)

lemma parse_late_label:
  "parse_lines lines_late_label =
     (Some \<lparr>title = asc ''T'', date = asc ''2024'' @ [nian] @ asc ''1'' @ [yue] @ asc ''2'' @ [ri],
            location = asc ''B'', attendees = asc ''P'', topic = Some [], content = asc ''x'',
            raw_text = join newline lines_late_label\<rparr>, None, None)"
proof -
  have l: "lines_late_label = asc ''T'' # tl lines_late_label"
    by (simp add: lines_late_label_def)
  have s: "strip (asc ''x'') = asc ''x''" by (simp add: str_eval)
  have n: "asc ''B'' \<noteq> []" "asc ''P'' \<noteq> []" "asc ''2024-1-2'' \<noteq> []" by (simp_all add: asc_def)
  show ?thesis
    by (subst (1) l, simp only: parse_lines_def Let_def list.case scan_late_label)
       (simp add: date_2024_1_2 s n l [symmetric])
qed

text \<open>
  C3, as the claim states it, fails on \<open>lines_late_label\<close>: its fifth line is the content
  marker and its seventh, after the marker, starts with the "meeting place" label. The
  seventh line is not appended to the content, which is the sixth line alone, and it sets
  the location.
\<close>

theorem content_after_marker_counterexample:
  "startswith (lines_late_label ! 4) label_content
   \<and> lines_late_label ! 6 = label_location @ [colon_fw] @ asc ''B''
   \<and> map_option content (fst (parse_lines lines_late_label)) = Some (asc ''x'')
   \<and> map_option location (fst (parse_lines lines_late_label)) = Some (asc ''B'')"
  by (simp add: parse_late_label) (simp add: lines_late_label_def startswith_def label_defs)

theorem content_after_marker_witness:
  "parse_lines (asc ''T'' # tl lines_late_label) = parse_lines lines_late_label
   \<and> filter (\<lambda>ln. \<not> is_label ln) (dropWhile (\<lambda>ln. \<not> startswith ln label_content) (tl lines_late_label))
       = [asc ''x'']
   \<and> map_option content (fst (parse_lines lines_late_label)) = Some (strip (join newline [asc ''x'']))"
proof -
  have l: "lines_late_label = asc ''T'' # tl lines_late_label"
    by (simp add: lines_late_label_def)
  have f: "filter (\<lambda>ln. \<not> is_label ln) (dropWhile (\<lambda>ln. \<not> startswith ln label_content) (tl lines_late_label))
       = [asc ''x'']"
    by (simp add: lines_late_label_def is_label_def label_defs str_eval)
  have p: "parse_lines (asc ''T'' # tl lines_late_label) = (fst (parse_lines lines_late_label), None, None)"
    using l parse_late_label by simp
  have "fst (parse_lines lines_late_label) = Some (the (fst (parse_lines lines_late_label)))"
    by (simp add: parse_late_label)
  with p have "parse_lines (asc ''T'' # tl lines_late_label) = (Some (the (fst (parse_lines lines_late_label))), None, None)"
    by simp
  from content_after_marker [OF this] show ?thesis
    using l f by (simp add: parse_late_label)
qed

theorem parse_lines_missing_field_witness:
  "lines_no_location \<noteq> []
   \<and> list_all (\<lambda>ln. \<not> startswith ln label_location) (tl lines_no_location)
   \<and> location_str (scan_lines (tl lines_no_location)) = []
   \<and> normalize_datetime (date_str (scan_lines (tl lines_no_location))) = None
   \<and> parse_lines lines_no_location = (None, Some msg_missing_field, Some (join newline lines_no_location))"
proof -
  have a: "lines_no_location \<noteq> []" by (simp add: lines_no_location_def)
  have b: "\<forall>ln \<in> set (tl lines_no_location). \<not> startswith ln label_location"
    by (simp add: lines_no_location_def label_defs str_eval)
  have c: "location_str (scan_lines (tl lines_no_location)) = []"
    using b by (rule no_location_line)
  have d: "date_str (scan_lines (tl lines_no_location)) = asc ''tomorrow''"
    by (simp add: lines_no_location_def scan_lines_def scan_line_def fields_init_def label_defs str_eval)
  from parse_lines_missing_field [OF a] c show ?thesis
    using a b by (simp add: d date_tomorrow list_all_iff)
qed

subsection \<open>The date functions\<close>

lemma decimal_base: "isdecimal c \<Longrightarrow> \<exists>b \<in> set decimal_bases. b \<le> c \<and> c < b + 10"
  by (auto simp: isdecimal_def decimal_def find_Some_iff)

lemma decimal_range:
  assumes "isdecimal c"
  shows "48 \<le> c \<and> (c \<le> 57 \<or> (1632 \<le> c \<and> c \<le> 4249) \<or> (6112 \<le> c \<and> c \<le> 7257) \<or> 42528 \<le> c)"
proof -
  from decimal_base [OF assms] obtain b where b: "b \<in> set decimal_bases" and c: "b \<le> c" "c < b + 10"
    by blast
  from b have "b = 48 \<or> (1632 \<le> b \<and> b \<le> 4240) \<or> (6112 \<le> b \<and> b \<le> 7248) \<or> 42528 \<le> b"
    unfolding decimal_bases_def by (simp, elim disjE) simp_all
  with c show ?thesis by arith
qed

lemma decimal_not_space: "isdecimal c \<Longrightarrow> \<not> isspace c"
  by (drule decimal_range) (simp add: isspace_def, arith)

lemma sep_not_decimal:
  "\<not> isdecimal nian" "\<not> isdecimal yue" "\<not> isdecimal ri" "\<not> isdecimal hyphen"
  by (simp_all add: isdecimal_def decimal_def decimal_bases_def nian_def yue_def ri_def hyphen_def)

lemma sep_not_space:
  "\<not> isspace nian" "\<not> isspace yue" "\<not> isspace ri" "\<not> isspace hyphen"
  by (simp_all add: isspace_def nian_def yue_def ri_def hyphen_def)

lemma re_digits_SomeD:
  assumes "re_digits lo hi s = Some (g, r)"
  shows "s = g @ r" and "list_all isdecimal g" and "lo \<le> length g" and "length g \<le> hi"
proof -
  from assms have g: "g = takeWhile isdecimal (take hi s)" and r: "r = drop (length g) s"
    and lo: "lo \<le> length g"
    by (auto simp: re_digits_def Let_def split: if_splits)
  show "lo \<le> length g" by (rule lo)
  show "list_all isdecimal g" unfolding g list_all_iff by (auto dest: set_takeWhileD)
  have "length g \<le> length (take hi s)" unfolding g by (rule length_takeWhile_le)
  then show "length g \<le> hi" by simp
  have "takeWhile isdecimal (take hi s)
          = take (length (takeWhile isdecimal (take hi s))) (take hi s)"
    by (rule takeWhile_eq_take)
  then have "g = take (length g) (take hi s)" by (simp only: g [symmetric])
  also have "\<dots> = take (length g) s" using \<open>length g \<le> hi\<close> by (simp add: min_def)
  finally have "g = take (length g) s" .
  then have "g @ r = take (length g) s @ drop (length g) s" unfolding r by simp
  then show "s = g @ r" by simp
qed

lemma re_digits_exact:
  assumes "list_all isdecimal g" and "lo \<le> length g" and "length g \<le> hi"
    and "length g = hi \<or> r = [] \<or> \<not> isdecimal (hd r)"
  shows "re_digits lo hi (g @ r) = Some (g, r)"
proof -
  have "takeWhile isdecimal (take hi (g @ r)) = g"
  proof (cases "length g = hi")
    case True
    then show ?thesis using assms(1) by (simp add: list_all_iff)
  next
    case False
    with assms(3) have lt: "length g < hi" by simp
    from False assms(4) have "r = [] \<or> \<not> isdecimal (hd r)" by simp
    moreover from lt obtain k where "hi - length g = Suc k"
      by (cases "hi - length g") auto
    ultimately have "takeWhile isdecimal (take (hi - length g) r) = []"
      by (cases r) auto
    then show ?thesis using assms(1) lt by (simp add: list_all_iff takeWhile_append2 del: takeWhile_eq_Nil_iff)
  qed
  then show ?thesis using assms(2) by (simp add: re_digits_def)
qed

lemma re_digits_greedy:
  assumes "list_all isdecimal g" and "lo \<le> length g" and "length g \<le> hi"
  shows "\<exists>g' r'. re_digits lo hi (g @ r) = Some (g', r')"
proof -
  have "length g \<le> length (takeWhile isdecimal (take hi (g @ r)))"
  proof -
    have "take hi (g @ r) = g @ take (hi - length g) r" using assms(3) by simp
    then show ?thesis using assms(1) by (simp add: list_all_iff takeWhile_append2)
  qed
  with assms(2) show ?thesis by (simp add: re_digits_def Let_def)
qed

lemma re_char_hit: "re_char c (c # r) = Some r"
  by (simp add: re_char_def)

lemma re_char_SomeD: "re_char c s = Some r \<Longrightarrow> s = c # r"
  by (auto simp: re_char_def split: list.splits if_splits)

lemma strip_eq: "strip s = rstrip (lstrip s)"
  by (simp add: strip_def lstrip_def rstrip_def)

lemma lstrip_spaces: "list_all isspace ws \<Longrightarrow> lstrip (ws @ s) = lstrip s"
  by (simp add: lstrip_def list_all_iff)

lemma lstrip_id: "s = [] \<or> \<not> isspace (hd s) \<Longrightarrow> lstrip s = s"
  by (cases s) (auto simp: lstrip_def)

lemma lstrip_all: "list_all isspace s \<Longrightarrow> lstrip s = []"
  by (simp add: lstrip_def list_all_iff)

lemma rstrip_all: "list_all isspace s \<Longrightarrow> rstrip s = []"
  by (simp add: rstrip_def list_all_iff)

lemma rstrip_append:
  "rstrip (a @ b) = (if list_all isspace b then rstrip a else a @ rstrip b)"
  by (auto simp: rstrip_def list_all_iff dropWhile_append)

lemma strip_Nils: "lstrip [] = []" "rstrip [] = []"
  by (simp_all add: lstrip_def rstrip_def)

lemma rstrip_Cons:
  "rstrip (x # xs) = (if isspace x \<and> list_all isspace xs then [] else x # rstrip xs)"
proof (cases "list_all isspace xs")
  case True
  have "rstrip [x] = (if isspace x then [] else [x])" by (simp add: rstrip_def)
  with rstrip_append [of "[x]" xs] True rstrip_all [OF True] show ?thesis by simp
next
  case False
  with rstrip_append [of "[x]" xs] show ?thesis by simp
qed

lemma rstrip_id: "s = [] \<or> \<not> isspace (last s) \<Longrightarrow> rstrip s = s"
  by (cases s rule: rev_cases) (auto simp: rstrip_def)

lemma rstrip_idem: "rstrip (rstrip s) = rstrip s"
  by (simp add: rstrip_def)

lemma lstrip_idem: "lstrip (lstrip s) = lstrip s"
  by (simp add: lstrip_def)

lemma lstrip_rstrip: "lstrip (rstrip s) = rstrip (lstrip s)"
proof (induction s)
  case Nil
  then show ?case by (simp add: strip_Nils)
next
  case (Cons x xs)
  show ?case
  proof (cases "isspace x")
    case True
    have l: "lstrip (x # xs) = lstrip xs" using True by (simp add: lstrip_def)
    show ?thesis
    proof (cases "list_all isspace xs")
      case True
      with \<open>isspace x\<close> show ?thesis
        by (simp add: rstrip_Cons l lstrip_all rstrip_all strip_Nils)
    next
      case False
      with \<open>isspace x\<close> have "lstrip (rstrip (x # xs)) = lstrip (rstrip xs)"
        by (simp add: rstrip_Cons lstrip_def)
      with Cons.IH l show ?thesis by simp
    qed
  next
    case False
    then have l: "lstrip (x # xs) = x # xs" by (simp add: lstrip_def)
    from False have "lstrip (rstrip (x # xs)) = x # rstrip xs"
      by (simp add: rstrip_Cons lstrip_def)
    with False l show ?thesis by (simp add: rstrip_Cons)
  qed
qed

lemma strip_rstrip: "strip (rstrip s) = strip s"
  by (simp add: strip_eq lstrip_rstrip rstrip_idem)

lemma re_ws_strip: "re_ws (strip s) = strip s"
proof -
  have "strip s = lstrip (rstrip s)" by (simp add: strip_eq lstrip_rstrip)
  then show ?thesis by (simp add: re_ws_def lstrip_idem [unfolded lstrip_def] lstrip_def)
qed

lemma strip_core:
  assumes "list_all isspace ws" and "x \<noteq> []" and "\<not> isspace (hd x)" and "\<not> isspace (last x)"
  shows "strip (ws @ x @ rest) = x @ rstrip rest"
proof -
  have "lstrip (ws @ x @ rest) = x @ rest"
    using assms(1-3) by (simp add: lstrip_spaces lstrip_id)
  moreover have "rstrip (x @ rest) = x @ rstrip rest"
    using assms(2,4) by (simp add: rstrip_append rstrip_id rstrip_all)
  ultimately show ?thesis by (simp add: strip_eq)
qed

lemma re_ws_lead:
  assumes "list_all isspace ws" and "s = [] \<or> \<not> isspace (hd s)"
  shows "re_ws (ws @ s) = s"
  using assms lstrip_spaces [of ws s] lstrip_id [of s] by (simp add: re_ws_def lstrip_def)

lemma hd_decimal: "list_all isdecimal g \<Longrightarrow> g \<noteq> [] \<Longrightarrow> isdecimal (hd g)"
  by (cases g) auto

lemma last_decimal: "list_all isdecimal g \<Longrightarrow> g \<noteq> [] \<Longrightarrow> isdecimal (last g)"
  by (cases g rule: rev_cases) auto

lemma date_re_match:
  assumes y: "list_all isdecimal y" "length y = 4"
    and m: "list_all isdecimal m" "1 \<le> length m" "length m \<le> 2"
    and d: "list_all isdecimal d" "1 \<le> length d" "length d \<le> 2"
    and ws: "list_all isspace ws"
    and seps: "\<not> isdecimal sep1" "\<not> isdecimal sep2"
    and tail: "case sep3 of Some c \<Rightarrow> tail = c # rest \<and> \<not> isdecimal c
               | None \<Rightarrow> tail = rest \<and> (length d = 2 \<or> rest = [] \<or> \<not> isdecimal (hd rest))"
  shows "date_re sep1 sep2 sep3 (ws @ y @ [sep1] @ m @ [sep2] @ d @ tail)
         = Some \<lparr>group_y = y, group_m = m, group_d = d, after_end = rest\<rparr>"
proof -
  from y have yne: "y \<noteq> []" by auto
  have "\<not> isspace (hd (y @ [sep1] @ m @ [sep2] @ d @ tail))"
    using hd_decimal [OF y(1) yne] yne by (simp add: decimal_not_space)
  then have 1: "re_ws (ws @ y @ [sep1] @ m @ [sep2] @ d @ tail) = y @ [sep1] @ m @ [sep2] @ d @ tail"
    using ws by (intro re_ws_lead) simp_all
  have 2: "re_digits 4 4 (y @ [sep1] @ m @ [sep2] @ d @ tail) = Some (y, [sep1] @ m @ [sep2] @ d @ tail)"
    using y by (intro re_digits_exact) simp_all
  have 3: "re_digits 1 2 (m @ [sep2] @ d @ tail) = Some (m, [sep2] @ d @ tail)"
    using m seps by (intro re_digits_exact) simp_all
  have dt: "length d = 2 \<or> tail = [] \<or> \<not> isdecimal (hd tail)"
    using tail by (cases sep3) auto
  have 4: "re_digits 1 2 (d @ tail) = Some (d, tail)"
    using d dt by (intro re_digits_exact) simp_all
  have 5: "(case sep3 of None \<Rightarrow> Some tail | Some c \<Rightarrow> re_char c tail) = Some rest"
    using tail by (cases sep3) (auto simp: re_char_def)
  show ?thesis
    using 3 4 5 unfolding date_re_def 1 2 by (simp add: re_char_hit)
qed

lemma date_re_SomeD:
  assumes "date_re sep1 sep2 sep3 s = Some mt"
  shows "re_ws s = group_y mt @ [sep1] @ group_m mt @ [sep2] @ group_d mt
                     @ (case sep3 of None \<Rightarrow> [] | Some c \<Rightarrow> [c]) @ after_end mt
       \<and> list_all isdecimal (group_y mt) \<and> length (group_y mt) = 4
       \<and> list_all isdecimal (group_m mt) \<and> 1 \<le> length (group_m mt) \<and> length (group_m mt) \<le> 2
       \<and> list_all isdecimal (group_d mt) \<and> 1 \<le> length (group_d mt) \<and> length (group_d mt) \<le> 2"
proof -
  from assms obtain y r1 r2 m r3 r4 d r5 r6 where
    a: "re_digits 4 4 (re_ws s) = Some (y, r1)" and b: "re_char sep1 r1 = Some r2"
    and c: "re_digits 1 2 r2 = Some (m, r3)" and e: "re_char sep2 r3 = Some r4"
    and f: "re_digits 1 2 r4 = Some (d, r5)"
    and g: "(case sep3 of None \<Rightarrow> Some r5 | Some c \<Rightarrow> re_char c r5) = Some r6"
    and mt: "mt = \<lparr>group_y = y, group_m = m, group_d = d, after_end = r6\<rparr>"
    by (auto simp: date_re_def split: Option.bind_splits)
  have "r5 = (case sep3 of None \<Rightarrow> [] | Some c \<Rightarrow> [c]) @ r6"
    using g by (cases sep3) (auto dest: re_char_SomeD)
  with re_digits_SomeD [OF a] re_digits_SomeD [OF c] re_digits_SomeD [OF f]
    re_char_SomeD [OF b] re_char_SomeD [OF e] mt
  show ?thesis by simp
qed

lemma date_re_std_some:
  assumes y: "list_all isdecimal y" "length y = 4"
    and m: "list_all isdecimal m" "1 \<le> length m" "length m \<le> 2"
    and d: "list_all isdecimal d" "1 \<le> length d" "length d \<le> 2"
    and ws: "list_all isspace ws"
  shows "date_re hyphen hyphen None (ws @ y @ [hyphen] @ m @ [hyphen] @ d @ rest) \<noteq> None"
proof (cases "length d = 2 \<or> rest = [] \<or> \<not> isdecimal (hd rest)")
  case True
  then have "case None of Some c \<Rightarrow> rest = c # rest \<and> \<not> isdecimal c
               | None \<Rightarrow> rest = rest \<and> (length d = 2 \<or> rest = [] \<or> \<not> isdecimal (hd rest))"
    by simp
  from date_re_match [OF y m d ws sep_not_decimal(4) sep_not_decimal(4) this]
  show ?thesis by simp
next
  case False
  then obtain c rest' where r: "rest = c # rest'" and c: "isdecimal c" and l: "length d = 1"
    using d by (cases rest) auto
  have d': "list_all isdecimal (d @ [c])" "1 \<le> length (d @ [c])" "length (d @ [c]) \<le> 2"
    using d(1) c l by simp_all
  have "case None of Some c' \<Rightarrow> rest' = c' # rest' \<and> \<not> isdecimal c'
               | None \<Rightarrow> rest' = rest' \<and> (length (d @ [c]) = 2 \<or> rest' = [] \<or> \<not> isdecimal (hd rest'))"
    using l by simp
  from date_re_match [OF y m d' ws sep_not_decimal(4) sep_not_decimal(4) this]
  show ?thesis by (simp add: r)
qed

lemma date_re_cn_on_std:
  assumes y: "list_all isdecimal y" "length y = 4"
  shows "date_re nian yue (Some ri) (y @ [hyphen] @ t) = None"
proof -
  from y have yne: "y \<noteq> []" by auto
  have "\<not> isspace (hd (y @ [hyphen] @ t))"
    using hd_decimal [OF y(1) yne] yne by (simp add: decimal_not_space)
  then have 1: "re_ws (y @ [hyphen] @ t) = y @ [hyphen] @ t"
    using re_ws_lead [of "[]" "y @ [hyphen] @ t"] by simp
  have 2: "re_digits 4 4 (y @ [hyphen] @ t) = Some (y, [hyphen] @ t)"
    using y sep_not_decimal(4) by (intro re_digits_exact) simp_all
  show ?thesis
    unfolding date_re_def 1 2 by (simp add: re_char_def hyphen_def nian_def)
qed

lemma normalize_datetime_cn:
  assumes y: "list_all isdecimal y" "length y = 4"
    and m: "list_all isdecimal m" "1 \<le> length m" "length m \<le> 2"
    and d: "list_all isdecimal d" "1 \<le> length d" "length d \<le> 2"
    and ws: "list_all isspace ws"
  shows "normalize_datetime (ws @ y @ [nian] @ m @ [yue] @ d @ [ri] @ rest)
         = Some (str_of_nat (int_of_str y) @ [nian] @ str_of_nat (int_of_str m) @ [yue]
                 @ str_of_nat (int_of_str d) @ [ri]
                 @ (if strip rest = [] then [] else space @ strip rest))"
proof -
  let ?x = "y @ [nian] @ m @ [yue] @ d @ [ri]"
  from y have yne: "y \<noteq> []" by auto
  have hd: "\<not> isspace (hd ?x)"
    using hd_decimal [OF y(1) yne] yne by (simp add: decimal_not_space)
  have "strip (ws @ ?x @ rest) = ?x @ rstrip rest"
    using ws hd by (intro strip_core) (simp_all add: sep_not_space)
  then have s: "strip (ws @ y @ [nian] @ m @ [yue] @ d @ [ri] @ rest)
                = [] @ y @ [nian] @ m @ [yue] @ d @ (ri # rstrip rest)"
    by simp
  have "case Some ri of Some c \<Rightarrow> ri # rstrip rest = c # rstrip rest \<and> \<not> isdecimal c
        | None \<Rightarrow> ri # rstrip rest = rstrip rest \<and> (length d = 2 \<or> rstrip rest = [] \<or> \<not> isdecimal (hd (rstrip rest)))"
    by (simp add: sep_not_decimal)
  from date_re_match [OF y m d _ sep_not_decimal(1) sep_not_decimal(2) this, of "[]"]
  have "DATE_RE_CN_PREFIX (strip (ws @ y @ [nian] @ m @ [yue] @ d @ [ri] @ rest))
        = Some \<lparr>group_y = y, group_m = m, group_d = d, after_end = rstrip rest\<rparr>"
    unfolding s DATE_RE_CN_PREFIX_def by simp
  then show ?thesis
    by (simp add: normalize_datetime_def with_suffix_def date_part_def strip_rstrip Let_def)
qed

lemma hd_rstrip: "rest = [] \<or> \<not> isdecimal (hd rest) \<Longrightarrow> rstrip rest = [] \<or> \<not> isdecimal (hd (rstrip rest))"
  by (cases rest) (auto simp: rstrip_Cons strip_Nils)

lemma normalize_datetime_std:
  assumes y: "list_all isdecimal y" "length y = 4"
    and m: "list_all isdecimal m" "1 \<le> length m" "length m \<le> 2"
    and d: "list_all isdecimal d" "1 \<le> length d" "length d \<le> 2"
    and ws: "list_all isspace ws"
    and greedy: "length d = 2 \<or> rest = [] \<or> \<not> isdecimal (hd rest)"
  shows "normalize_datetime (ws @ y @ [hyphen] @ m @ [hyphen] @ d @ rest)
         = Some (str_of_nat (int_of_str y) @ [nian] @ str_of_nat (int_of_str m) @ [yue]
                 @ str_of_nat (int_of_str d) @ [ri]
                 @ (if strip rest = [] then [] else space @ strip rest))"
proof -
  let ?x = "y @ [hyphen] @ m @ [hyphen] @ d"
  from y have yne: "y \<noteq> []" by auto
  from d have dne: "d \<noteq> []" by auto
  have hd: "\<not> isspace (hd ?x)"
    using hd_decimal [OF y(1) yne] yne by (simp add: decimal_not_space)
  have lst: "\<not> isspace (last ?x)"
    using last_decimal [OF d(1) dne] dne by (simp add: decimal_not_space)
  have "strip (ws @ ?x @ rest) = ?x @ rstrip rest"
    using ws hd lst by (intro strip_core) simp_all
  then have s: "strip (ws @ y @ [hyphen] @ m @ [hyphen] @ d @ rest)
                = [] @ y @ [hyphen] @ m @ [hyphen] @ d @ rstrip rest"
    by simp
  have g: "length d = 2 \<or> rstrip rest = [] \<or> \<not> isdecimal (hd (rstrip rest))"
    using greedy hd_rstrip [of rest] by blast
  then have "case None of Some c \<Rightarrow> rstrip rest = c # rstrip rest \<and> \<not> isdecimal c
        | None \<Rightarrow> rstrip rest = rstrip rest \<and> (length d = 2 \<or> rstrip rest = [] \<or> \<not> isdecimal (hd (rstrip rest)))"
    by simp
  from date_re_match [OF y m d _ sep_not_decimal(4) sep_not_decimal(4) this, of "[]"]
  have std: "DATE_RE_STD_PREFIX (strip (ws @ y @ [hyphen] @ m @ [hyphen] @ d @ rest))
        = Some \<lparr>group_y = y, group_m = m, group_d = d, after_end = rstrip rest\<rparr>"
    unfolding s DATE_RE_STD_PREFIX_def by simp
  have cn: "DATE_RE_CN_PREFIX (strip (ws @ y @ [hyphen] @ m @ [hyphen] @ d @ rest)) = None"
    unfolding s DATE_RE_CN_PREFIX_def using date_re_cn_on_std [OF y] by simp
  show ?thesis
    using cn std
    by (simp add: normalize_datetime_def with_suffix_def date_part_def strip_rstrip Let_def)
qed

lemma normalize_datetime_None_iff:
  "normalize_datetime s = None \<longleftrightarrow>
     \<not> (\<exists>y m d rest.
           list_all isdecimal y \<and> length y = 4 \<and> list_all isdecimal m \<and> 1 \<le> length m \<and> length m \<le> 2
           \<and> list_all isdecimal d \<and> 1 \<le> length d \<and> length d \<le> 2
           \<and> (strip s = y @ [nian] @ m @ [yue] @ d @ [ri] @ rest
              \<or> strip s = y @ [hyphen] @ m @ [hyphen] @ d @ rest))"
  (is "?l \<longleftrightarrow> \<not> ?r")
proof -
  have n: "?l \<longleftrightarrow> date_re nian yue (Some ri) (strip s) = None \<and> date_re hyphen hyphen None (strip s) = None"
    by (auto simp: normalize_datetime_def DATE_RE_CN_PREFIX_def DATE_RE_STD_PREFIX_def Let_def
             split: option.splits)
  have "?r" if "date_re nian yue (Some ri) (strip s) = Some mt" for mt
    using date_re_SomeD [OF that] unfolding re_ws_strip by (simp only: option.case) blast
  moreover have "?r" if "date_re hyphen hyphen None (strip s) = Some mt" for mt
    using date_re_SomeD [OF that] unfolding re_ws_strip by (simp only: option.case append_Nil) blast
  moreover have "date_re nian yue (Some ri) (strip s) \<noteq> None \<or> date_re hyphen hyphen None (strip s) \<noteq> None"
    if ?r
  proof -
    from that obtain y m d rest where
      y: "list_all isdecimal y" "length y = 4" and m: "list_all isdecimal m" "1 \<le> length m" "length m \<le> 2"
      and d: "list_all isdecimal d" "1 \<le> length d" "length d \<le> 2"
      and s: "strip s = y @ [nian] @ m @ [yue] @ d @ [ri] @ rest \<or> strip s = y @ [hyphen] @ m @ [hyphen] @ d @ rest"
      by blast
    from s show ?thesis
    proof
      assume e: "strip s = y @ [nian] @ m @ [yue] @ d @ [ri] @ rest"
      have "case Some ri of Some c \<Rightarrow> ri # rest = c # rest \<and> \<not> isdecimal c
        | None \<Rightarrow> ri # rest = rest \<and> (length d = 2 \<or> rest = [] \<or> \<not> isdecimal (hd rest))"
        by (simp add: sep_not_decimal)
      from date_re_match [OF y m d _ sep_not_decimal(1) sep_not_decimal(2) this, of "[]"]
      show ?thesis by (simp add: e)
    next
      assume e: "strip s = y @ [hyphen] @ m @ [hyphen] @ d @ rest"
      from date_re_std_some [OF y m d, of "[]" rest] show ?thesis by (simp add: e)
    qed
  qed
  ultimately show ?thesis unfolding n by (metis option.exhaust)
qed

lemma strip_plain:
  assumes "x \<noteq> []" and "\<not> isspace (hd x)" and "\<not> isspace (last x)"
  shows "strip x = x"
  using strip_core [of "[]" x "[]"] assms by (simp add: strip_Nils)

lemma normalize_date_prefix_cn:
  assumes y: "list_all isdecimal y" "length y = 4"
    and m: "list_all isdecimal m" "1 \<le> length m" "length m \<le> 2"
    and d: "list_all isdecimal d" "1 \<le> length d" "length d \<le> 2"
  shows "normalize_date_prefix (y @ [nian] @ m @ [yue] @ d @ [ri])
         = map_option strftime_ymd (datetime (int_of_str y) (int_of_str m) (int_of_str d))"
proof -
  let ?x = "y @ [nian] @ m @ [yue] @ d @ [ri]"
  from y have yne: "y \<noteq> []" by auto
  have hd: "\<not> isspace (hd ?x)"
    using hd_decimal [OF y(1) yne] yne by (simp add: decimal_not_space)
  have s: "strip ?x = [] @ y @ [nian] @ m @ [yue] @ d @ (ri # [])"
    using strip_plain [of ?x] hd by (simp add: sep_not_space)
  have "case Some ri of Some c \<Rightarrow> ri # [] = c # [] \<and> \<not> isdecimal c
        | None \<Rightarrow> ri # [] = [] \<and> (length d = 2 \<or> [] = [] \<or> \<not> isdecimal (hd []))"
    by (simp add: sep_not_decimal)
  from date_re_match [OF y m d _ sep_not_decimal(1) sep_not_decimal(2) this, of "[]"]
  have "DATE_RE_CN_FULL (strip ?x) = Some \<lparr>group_y = y, group_m = m, group_d = d, after_end = []\<rparr>"
    unfolding s DATE_RE_CN_FULL_def by (simp add: to_end_def)
  then show ?thesis
    by (simp add: normalize_date_prefix_def strict_date_def Let_def)
qed

lemma normalize_date_prefix_std:
  assumes y: "list_all isdecimal y" "length y = 4"
    and m: "list_all isdecimal m" "1 \<le> length m" "length m \<le> 2"
    and d: "list_all isdecimal d" "1 \<le> length d" "length d \<le> 2"
  shows "normalize_date_prefix (y @ [hyphen] @ m @ [hyphen] @ d)
         = map_option strftime_ymd (datetime (int_of_str y) (int_of_str m) (int_of_str d))"
proof -
  let ?x = "y @ [hyphen] @ m @ [hyphen] @ d"
  from y have yne: "y \<noteq> []" by auto
  from d have dne: "d \<noteq> []" by auto
  have hd: "\<not> isspace (hd ?x)"
    using hd_decimal [OF y(1) yne] yne by (simp add: decimal_not_space)
  have lst: "\<not> isspace (last ?x)"
    using last_decimal [OF d(1) dne] dne by (simp add: decimal_not_space)
  have s: "strip ?x = [] @ y @ [hyphen] @ m @ [hyphen] @ d @ []"
    using strip_plain [of ?x] hd lst by simp
  have "case None of Some c \<Rightarrow> [] = c # [] \<and> \<not> isdecimal c
        | None \<Rightarrow> [] = [] \<and> (length d = 2 \<or> [] = [] \<or> \<not> isdecimal (hd []))"
    by simp
  from date_re_match [OF y m d _ sep_not_decimal(4) sep_not_decimal(4) this, of "[]"]
  have std: "DATE_RE_STD_FULL (strip ?x) = Some \<lparr>group_y = y, group_m = m, group_d = d, after_end = []\<rparr>"
    unfolding s DATE_RE_STD_FULL_def by (simp add: to_end_def)
  have cn: "DATE_RE_CN_FULL (strip ?x) = None"
    unfolding s DATE_RE_CN_FULL_def using date_re_cn_on_std [OF y, of "m @ [hyphen] @ d"]
    by (simp add: to_end_def)
  show ?thesis
    using cn std by (simp add: normalize_date_prefix_def strict_date_def Let_def)
qed

lemma normalize_datetime_std_some:
  assumes y: "list_all isdecimal y" "length y = 4"
    and m: "list_all isdecimal m" "1 \<le> length m" "length m \<le> 2"
    and d: "list_all isdecimal d" "1 \<le> length d" "length d \<le> 2"
  shows "normalize_datetime (y @ [hyphen] @ m @ [hyphen] @ d @ rest) \<noteq> None"
proof -
  let ?x = "y @ [hyphen] @ m @ [hyphen] @ d"
  from y have yne: "y \<noteq> []" by auto
  from d have dne: "d \<noteq> []" by auto
  have hd: "\<not> isspace (hd ?x)"
    using hd_decimal [OF y(1) yne] yne by (simp add: decimal_not_space)
  have lst: "\<not> isspace (last ?x)"
    using last_decimal [OF d(1) dne] dne by (simp add: decimal_not_space)
  have "strip ([] @ ?x @ rest) = ?x @ rstrip rest"
    using hd lst by (intro strip_core) simp_all
  then have "strip (y @ [hyphen] @ m @ [hyphen] @ d @ rest) = y @ [hyphen] @ m @ [hyphen] @ d @ rstrip rest"
    by simp
  with y m d show ?thesis
    unfolding normalize_datetime_None_iff by blast
qed

lemmas char_eval = asc_def isspace_def isdecimal_def decimal_def decimal_bases_def
  nian_def yue_def ri_def hyphen_def space_def

lemma digits_2024: "list_all isdecimal (asc ''2024'')" "length (asc ''2024'') = 4"
  by (simp_all add: char_eval)

lemma int_2024: "int_of_str (asc ''2024'') = 2024"
  by (simp add: int_of_str_def char_eval)

lemma str_2024: "str_of_nat 2024 = asc ''2024''"
  by (simp add: str_of_nat.simps asc_def)

lemmas normalize_eval = normalize_datetime_def DATE_RE_CN_PREFIX_def DATE_RE_STD_PREFIX_def date_re_def
  re_ws_def re_digits_def re_char_def with_suffix_def date_part_def int_of_str_def str_of_nat.simps
  strip_def Let_def

lemmas strict_eval = normalize_date_prefix_def DATE_RE_CN_FULL_def DATE_RE_STD_FULL_def to_end_def
  date_re_def re_ws_def re_digits_def re_char_def strict_date_def datetime_def days_in_month_def
  is_leap_def strftime_ymd_def pad2_def zfill_def int_of_str_def str_of_nat.simps strip_def Let_def

text \<open>
  C2, as the claim states it, fails on the string that is a space followed by
  \<open>2024-3-5\<close>: its first character is no digit, so neither prefix is at position 0, and
  the normalizer returns the date all the same.
\<close>

theorem normalize_datetime_counterexample:
  "\<not> isdecimal (hd (asc '' 2024-3-5''))
   \<and> normalize_datetime (asc '' 2024-3-5'') = Some (asc ''2024'' @ [nian] @ asc ''3'' @ [yue] @ asc ''5'' @ [ri])"
  by (simp add: normalize_eval char_eval)

text \<open>
  C2, amended. White space around the input and around the suffix does not count. For
  an input made of white space, a year of four digits, a month and a day of one or two
  digits each with the Chinese separators, and any rest, the normalizer returns the three
  numbers in decimal with the Chinese separators, followed by one space and the stripped
  rest when that is not empty. The same holds with the hyphens, the day being the longest
  run of one or two digits. And the normalizer returns \<open>None\<close> exactly for the strings
  that, once stripped, begin with neither form.
\<close>

theorem normalize_datetime_prefix:
  assumes "list_all isdecimal y" and "length y = 4"
    and "list_all isdecimal m" and "1 \<le> length m" and "length m \<le> 2"
    and "list_all isdecimal d" and "1 \<le> length d" and "length d \<le> 2"
    and "list_all isspace ws"
  shows "normalize_datetime (ws @ y @ [nian] @ m @ [yue] @ d @ [ri] @ rest)
           = Some (str_of_nat (int_of_str y) @ [nian] @ str_of_nat (int_of_str m) @ [yue]
                   @ str_of_nat (int_of_str d) @ [ri]
                   @ (if strip rest = [] then [] else space @ strip rest))
       \<and> (length d = 2 \<or> rest = [] \<or> \<not> isdecimal (hd rest) \<longrightarrow>
          normalize_datetime (ws @ y @ [hyphen] @ m @ [hyphen] @ d @ rest)
           = Some (str_of_nat (int_of_str y) @ [nian] @ str_of_nat (int_of_str m) @ [yue]
                   @ str_of_nat (int_of_str d) @ [ri]
                   @ (if strip rest = [] then [] else space @ strip rest)))
       \<and> (normalize_datetime s = None \<longleftrightarrow>
            \<not> (\<exists>y m d rest.
                 list_all isdecimal y \<and> length y = 4 \<and> list_all isdecimal m \<and> 1 \<le> length m
                 \<and> length m \<le> 2 \<and> list_all isdecimal d \<and> 1 \<le> length d \<and> length d \<le> 2
                 \<and> (strip s = y @ [nian] @ m @ [yue] @ d @ [ri] @ rest
                    \<or> strip s = y @ [hyphen] @ m @ [hyphen] @ d @ rest)))"
  using normalize_datetime_cn [OF assms, of rest] normalize_datetime_std [OF assms, of rest]
    normalize_datetime_None_iff [of s]
  by blast

lemma digits_03: "list_all isdecimal (asc ''03'')" "1 \<le> length (asc ''03'')" "length (asc ''03'') \<le> 2"
  by (simp_all add: char_eval)

lemma digits_05: "list_all isdecimal (asc ''05'')" "1 \<le> length (asc ''05'')" "length (asc ''05'') \<le> 2"
  by (simp_all add: char_eval)

lemma spaces_1: "list_all isspace (asc '' '')"
  by (simp add: char_eval)

lemma int_03_05: "int_of_str (asc ''03'') = 3" "int_of_str (asc ''05'') = 5"
  by (simp_all add: int_of_str_def char_eval)

lemma str_3_5: "str_of_nat 3 = asc ''3''" "str_of_nat 5 = asc ''5''"
  by (simp_all add: str_of_nat.simps asc_def)

lemma strip_time: "strip (asc ''  10:00 '') = asc ''10:00''"
  by (simp add: strip_def char_eval)

lemma date_incomplete: "normalize_datetime (asc ''2024'' @ [nian] @ asc ''3'' @ [yue]) = None"
  by (simp add: normalize_eval char_eval)

theorem normalize_datetime_prefix_witness:
  "normalize_datetime (asc '' '' @ asc ''2024'' @ [nian] @ asc ''03'' @ [yue] @ asc ''05'' @ [ri] @ asc ''  10:00 '')
     = Some (asc ''2024'' @ [nian] @ asc ''3'' @ [yue] @ asc ''5'' @ [ri] @ space @ asc ''10:00'')
   \<and> normalize_datetime (asc '' '' @ asc ''2024'' @ [hyphen] @ asc ''03'' @ [hyphen] @ asc ''05'' @ asc ''  10:00 '')
     = Some (asc ''2024'' @ [nian] @ asc ''3'' @ [yue] @ asc ''5'' @ [ri] @ space @ asc ''10:00'')
   \<and> \<not> (\<exists>y m d rest.
          list_all isdecimal y \<and> length y = 4 \<and> list_all isdecimal m \<and> 1 \<le> length m
          \<and> length m \<le> 2 \<and> list_all isdecimal d \<and> 1 \<le> length d \<and> length d \<le> 2
          \<and> (strip (asc ''2024'' @ [nian] @ asc ''3'' @ [yue]) = y @ [nian] @ m @ [yue] @ d @ [ri] @ rest
             \<or> strip (asc ''2024'' @ [nian] @ asc ''3'' @ [yue]) = y @ [hyphen] @ m @ [hyphen] @ d @ rest))"
proof -
  have l: "length (asc ''05'') = 2" by (simp add: asc_def)
  have n: "asc ''10:00'' \<noteq> []" by (simp add: asc_def)
  note t = normalize_datetime_prefix [OF digits_2024 digits_03 digits_05 spaces_1,
      of "asc ''  10:00 ''" "asc ''2024'' @ [nian] @ asc ''3'' @ [yue]"]
  show ?thesis
    using t unfolding int_2024 int_03_05 str_2024 str_3_5 strip_time date_incomplete
    by (simp add: l n)
qed

text \<open>
  C10. Every string that begins with four digits, one or two digits and one or two
  digits in either form is normalized, whatever the numbers are: month 13 and day 99 are
  accepted. The strict function returns \<open>None\<close> for a complete date in either form whose
  numbers are no date of the calendar, as for 2024-02-30, which the normalizer accepts.
\<close>

theorem normalize_datetime_no_calendar_check:
  assumes "list_all isdecimal y" and "length y = 4"
    and "list_all isdecimal m" and "1 \<le> length m" and "length m \<le> 2"
    and "list_all isdecimal d" and "1 \<le> length d" and "length d \<le> 2"
  shows "normalize_datetime (y @ [nian] @ m @ [yue] @ d @ [ri] @ rest) \<noteq> None
       \<and> normalize_datetime (y @ [hyphen] @ m @ [hyphen] @ d @ rest) \<noteq> None
       \<and> (datetime (int_of_str y) (int_of_str m) (int_of_str d) = None \<longrightarrow>
            normalize_date_prefix (y @ [nian] @ m @ [yue] @ d @ [ri]) = None
          \<and> normalize_date_prefix (y @ [hyphen] @ m @ [hyphen] @ d) = None)
       \<and> normalize_datetime (asc ''2024'' @ [nian] @ asc ''13'' @ [yue] @ asc ''99'' @ [ri])
           = Some (asc ''2024'' @ [nian] @ asc ''13'' @ [yue] @ asc ''99'' @ [ri])
       \<and> normalize_datetime (asc ''2024-02-30'')
           = Some (asc ''2024'' @ [nian] @ asc ''2'' @ [yue] @ asc ''30'' @ [ri])
       \<and> normalize_date_prefix (asc ''2024-02-30'') = None"
proof -
  have "normalize_datetime ([] @ y @ [nian] @ m @ [yue] @ d @ [ri] @ rest) \<noteq> None"
    using normalize_datetime_cn [OF assms, of "[]" rest] by simp
  moreover have "normalize_datetime (asc ''2024'' @ [nian] @ asc ''13'' @ [yue] @ asc ''99'' @ [ri])
           = Some (asc ''2024'' @ [nian] @ asc ''13'' @ [yue] @ asc ''99'' @ [ri])"
    by (simp add: normalize_eval char_eval)
  moreover have "normalize_datetime (asc ''2024-02-30'')
           = Some (asc ''2024'' @ [nian] @ asc ''2'' @ [yue] @ asc ''30'' @ [ri])"
    by (simp add: normalize_eval char_eval)
  moreover have "normalize_date_prefix (asc ''2024-02-30'') = None"
    by (simp add: strict_eval char_eval)
  ultimately show ?thesis
    using normalize_datetime_std_some [OF assms, of rest]
      normalize_date_prefix_cn [OF assms] normalize_date_prefix_std [OF assms]
    by simp
qed

lemma digits_02_30:
  "list_all isdecimal (asc ''02'')" "1 \<le> length (asc ''02'')" "length (asc ''02'') \<le> 2"
  "list_all isdecimal (asc ''30'')" "1 \<le> length (asc ''30'')" "length (asc ''30'') \<le> 2"
  by (simp_all add: char_eval)

lemma feb_30: "datetime (int_of_str (asc ''2024'')) (int_of_str (asc ''02'')) (int_of_str (asc ''30'')) = None"
  by (simp add: int_of_str_def char_eval datetime_def days_in_month_def is_leap_def)

theorem normalize_datetime_no_calendar_check_witness:
  "datetime (int_of_str (asc ''2024'')) (int_of_str (asc ''02'')) (int_of_str (asc ''30'')) = None
   \<and> normalize_datetime (asc ''2024'' @ [nian] @ asc ''02'' @ [yue] @ asc ''30'' @ [ri] @ asc '' 9:00'') \<noteq> None
   \<and> normalize_datetime (asc ''2024'' @ [hyphen] @ asc ''02'' @ [hyphen] @ asc ''30'' @ asc '' 9:00'') \<noteq> None
   \<and> normalize_date_prefix (asc ''2024'' @ [nian] @ asc ''02'' @ [yue] @ asc ''30'' @ [ri]) = None
   \<and> normalize_date_prefix (asc ''2024'' @ [hyphen] @ asc ''02'' @ [hyphen] @ asc ''30'') = None"
  using normalize_datetime_no_calendar_check [OF digits_2024 digits_02_30, of "asc '' 9:00''"] feb_30
  by simp

subsection \<open>Search\<close>

lemmas ex_defs = lines_march_def lines_december_def date_0305_cn_def date_1201_cn_def
  plain_para_def break_para_def

lemma split_two: "split_docx_by_page doc_two = [lines_march, lines_december]"
  by (simp add: doc_two_def split_docx_by_page_def has_page_break_def ex_defs label_defs str_eval
        nian_def yue_def ri_def Let_def)

lemma scan_march:
  "scan_lines (tl lines_march) =
     \<lparr>date_str = date_0305_cn, location_str = asc ''R'', attendees_str = asc ''P'',
      topic_str = [], content_lines = [], content_started = False\<rparr>"
  by (simp add: scan_lines_def scan_line_def fields_init_def ex_defs label_defs str_eval
        nian_def yue_def ri_def)

lemma scan_december:
  "scan_lines (tl lines_december) =
     \<lparr>date_str = asc ''2024-12-01'', location_str = asc ''R'', attendees_str = asc ''P'',
      topic_str = [], content_lines = [], content_started = False\<rparr>"
  by (simp add: scan_lines_def scan_line_def fields_init_def ex_defs label_defs str_eval)

lemma norm_march: "normalize_datetime date_0305_cn = Some date_0305_cn"
  by (simp add: normalize_eval char_eval date_0305_cn_def)

lemma norm_december: "normalize_datetime (asc ''2024-12-01'') = Some date_1201_cn"
  by (simp add: normalize_eval char_eval date_1201_cn_def)

lemma nonempty_consts:
  "asc ''R'' \<noteq> []" "asc ''P'' \<noteq> []" "asc ''2024-12-01'' \<noteq> []" "date_0305_cn \<noteq> []" "date_1201_cn \<noteq> []"
  by (simp_all add: asc_def date_0305_cn_def date_1201_cn_def)

lemma parse_march:
  "parse_lines lines_march =
     (Some \<lparr>title = asc ''A'', date = date_0305_cn, location = asc ''R'', attendees = asc ''P'',
            topic = Some [], content = [], raw_text = join newline lines_march\<rparr>, None, None)"
proof -
  have l: "lines_march = asc ''A'' # tl lines_march" by (simp add: lines_march_def)
  show ?thesis
    by (subst (1) l, simp only: parse_lines_def Let_def list.case scan_march)
       (simp add: norm_march nonempty_consts l [symmetric] strip_Nil)
qed

lemma parse_december:
  "parse_lines lines_december =
     (Some \<lparr>title = asc ''B'', date = date_1201_cn, location = asc ''R'', attendees = asc ''P'',
            topic = Some [], content = [], raw_text = join newline lines_december\<rparr>, None, None)"
proof -
  have l: "lines_december = asc ''B'' # tl lines_december" by (simp add: lines_december_def)
  show ?thesis
    by (subst (1) l, simp only: parse_lines_def Let_def list.case scan_december)
       (simp add: norm_december nonempty_consts l [symmetric] strip_Nil)
qed

lemma titles_differ: "asc ''A'' \<noteq> asc ''B''" "date_0305_cn \<noteq> date_1201_cn"
  by (simp_all add: asc_def date_0305_cn_def date_1201_cn_def)

lemma db_two_rows: "db_two = \<lparr>meetings = [row_march, row_december], sqlite_sequence = 2\<rparr>"
  by (simp add: db_two_def parse_docx_to_records_def split_two parse_march parse_december
        import_records_def insert_meeting_def db_empty_def next_id_def row_of_def
        row_march_def row_december_def titles_differ)

lemma date_order: "date_1201_cn < date_0305_cn"
  by (simp add: date_0305_cn_def date_1201_cn_def asc_def)

lemma date_clause_dropped:
  "normalize_date_prefix (strip date_kw) = None \<Longrightarrow> date_clause date_kw = date_clause []"
  by (simp add: date_clause_def strip_Nil)

lemma search_date_dropped:
  assumes "normalize_date_prefix (strip date_kw) = None"
  shows "segmented_search_exact_six d title_kw date_kw location_kw attendees_kw topic_kw content_kw
         = segmented_search_exact_six d title_kw [] location_kw attendees_kw topic_kw content_kw"
  by (simp add: segmented_search_exact_six_def date_clause_dropped [OF assms])

lemma sql_like_percent: "sql_like [37] t"
  by (induction t) simp_all

lemma sql_like_prefix:
  assumes "\<forall>c \<in> set p. c < 37 \<or> (37 < c \<and> c < 65)"
  shows "sql_like (p @ [37]) t \<longleftrightarrow> startswith t p"
  using assms
proof (induction p arbitrary: t)
  case Nil
  then show ?case by (simp add: sql_like_percent startswith_def)
next
  case (Cons a p)
  then have a: "a \<noteq> 37" "a \<noteq> 95" "lower_ascii a = a" by (auto simp: lower_ascii_def)
  from Cons have IH: "\<And>t. sql_like (p @ [37]) t \<longleftrightarrow> startswith t p" by simp
  show ?case
  proof (cases t)
    case Nil
    then show ?thesis using a by (simp add: startswith_def)
  next
    case (Cons c t')
    have "lower_ascii c = a \<longleftrightarrow> c = a"
      using Cons.prems a by (auto simp: lower_ascii_def)
    then show ?thesis using a IH [of t'] Cons by (auto simp: startswith_def)
  qed
qed

lemma sorts_before_total: "\<not> sorts_before a b \<Longrightarrow> sorts_before b a"
  by (auto simp: sorts_before_def)

lemma sorts_before_trans: "sorts_before a b \<Longrightarrow> sorts_before b c \<Longrightarrow> sorts_before a c"
  by (auto simp: sorts_before_def)

lemma set_insert_sorted: "set (insert_sorted r xs) = insert r (set xs)"
  by (induction xs) auto

lemma sorted_insert_sorted:
  "sorted_wrt sorts_before xs \<Longrightarrow> sorted_wrt sorts_before (insert_sorted r xs)"
proof (induction xs)
  case Nil
  then show ?case by simp
next
  case (Cons x xs)
  show ?case
  proof (cases "sorts_before r x")
    case True
    then have "\<forall>y \<in> set xs. sorts_before r y"
      using Cons.prems by (auto intro: sorts_before_trans)
    with True Cons.prems show ?thesis by simp
  next
    case False
    then have "sorts_before x r" by (rule sorts_before_total)
    with False Cons show ?thesis by (auto simp: set_insert_sorted)
  qed
qed

lemma sorted_order_by: "sorted_wrt sorts_before (order_by_date_id_desc rs)"
  by (induction rs) (simp_all add: order_by_date_id_desc_def sorted_insert_sorted)

lemma set_order_by: "set (order_by_date_id_desc rs) = set rs"
  by (induction rs) (simp_all add: order_by_date_id_desc_def set_insert_sorted)

lemma search_sorted:
  "sorted_wrt sorts_before
     (segmented_search_exact_six d title_kw date_kw location_kw attendees_kw topic_kw content_kw)"
  by (simp add: segmented_search_exact_six_def sorted_order_by Let_def)

lemma search_date_only:
  assumes "normalize_date_prefix (strip date_kw) = Some prefix"
    and "prefix \<noteq> []" and "strip date_kw \<noteq> []"
    and "\<forall>c \<in> set prefix. c < 37 \<or> (37 < c \<and> c < 65)"
  shows "set (segmented_search_exact_six d [] date_kw [] [] [] [])
         = {r \<in> set (meetings d). startswith (row_date r) prefix}"
  using assms
  by (simp add: segmented_search_exact_six_def like_clause_def date_clause_def strip_Nil
        where_sql_def set_order_by sql_like_prefix)

text \<open>
  C4 on the store \<open>db_two\<close>. The importer stores the dates as \<open>2024Y3M5D\<close> and
  \<open>2024Y12M1D\<close> (Y, M, D the Chinese separators), and \<open>ORDER BY date DESC\<close> compares these
  texts: the digit 3 is above the digit 1, so the meeting of 5 March comes first and the
  meeting of 1 December, the more recent one and the one inserted last, comes second.
  In general the result is sorted by the stored text, then by key (\<open>search_sorted\<close>).
\<close>

theorem search_order_not_chronological:
  "map row_date (meetings db_two) = [date_0305_cn, date_1201_cn]
   \<and> normalize_date_prefix date_0305_cn = Some (asc ''2024-03-05'')
   \<and> normalize_date_prefix date_1201_cn = Some (asc ''2024-12-01'')
   \<and> map row_id (segmented_search_exact_six db_two [] [] [] [] [] []) = [1, 2]
   \<and> map row_date (segmented_search_exact_six db_two [] [] [] [] [] []) = [date_0305_cn, date_1201_cn]"
proof -
  have a: "normalize_date_prefix date_0305_cn = Some (asc ''2024-03-05'')"
    by (simp add: strict_eval char_eval date_0305_cn_def)
  have b: "normalize_date_prefix date_1201_cn = Some (asc ''2024-12-01'')"
    by (simp add: strict_eval char_eval date_1201_cn_def)
  have c: "segmented_search_exact_six db_two [] [] [] [] [] [] = [row_march, row_december]"
    using date_order
    by (simp add: segmented_search_exact_six_def db_two_rows like_clause_def date_clause_def
          strip_Nil where_sql_def order_by_date_id_desc_def sorts_before_def
          row_march_def row_december_def)
  show ?thesis
    using a b c unfolding db_two_rows by (simp add: row_march_def row_december_def)
qed

text \<open>
  C1 on the store \<open>db_two\<close>. The keyword for 5 March 2024 is turned into the pattern
  \<open>2024-03-05%\<close>, the stored date of the meeting of that day is \<open>2024Y3M5D\<close>, and the
  search returns nothing, although the store holds that meeting. The incomplete keyword
  \<open>2024Y3M\<close> gives no clause and the search returns every row (\<open>search_date_dropped\<close> for
  any keyword the strict function rejects).
\<close>

theorem search_exact_date_misses_stored:
  "row_march \<in> set (meetings db_two) \<and> row_date row_march = date_0305_cn
   \<and> map snd (date_clause date_0305_cn) = [asc ''2024-03-05%'']
   \<and> segmented_search_exact_six db_two [] date_0305_cn [] [] [] [] = []
   \<and> segmented_search_exact_six db_two [] [] [] [] [] [] = [row_march, row_december]
   \<and> normalize_date_prefix (asc ''2024'' @ [nian] @ asc ''3'' @ [yue]) = None
   \<and> segmented_search_exact_six db_two [] (asc ''2024'' @ [nian] @ asc ''3'' @ [yue]) [] [] [] []
       = [row_march, row_december]"
proof -
  have s: "strip date_0305_cn = date_0305_cn"
    by (simp add: strip_def char_eval date_0305_cn_def)
  have a: "normalize_date_prefix date_0305_cn = Some (asc ''2024-03-05'')"
    by (simp add: strict_eval char_eval date_0305_cn_def)
  have dc: "date_clause date_0305_cn = [(row_date, asc ''2024-03-05'' @ [37])]"
    using nonempty_consts(4) by (simp add: date_clause_def s a) (simp add: asc_def)
  have m: "\<not> sql_like (asc ''2024-03-05'' @ [37]) date_0305_cn"
    "\<not> sql_like (asc ''2024-03-05'' @ [37]) date_1201_cn"
    by (simp_all add: asc_def date_0305_cn_def date_1201_cn_def lower_ascii_def nian_def)
  have e: "segmented_search_exact_six db_two [] date_0305_cn [] [] [] [] = []"
    using m by (simp add: segmented_search_exact_six_def db_two_rows like_clause_def dc strip_Nil
          where_sql_def order_by_date_id_desc_def row_march_def row_december_def)
  have c: "segmented_search_exact_six db_two [] [] [] [] [] [] = [row_march, row_december]"
    using date_order
    by (simp add: segmented_search_exact_six_def db_two_rows like_clause_def date_clause_def
          strip_Nil where_sql_def order_by_date_id_desc_def sorts_before_def
          row_march_def row_december_def)
  have i: "strip (asc ''2024'' @ [nian] @ asc ''3'' @ [yue]) = asc ''2024'' @ [nian] @ asc ''3'' @ [yue]"
    by (simp add: strip_def char_eval)
  have n: "normalize_date_prefix (asc ''2024'' @ [nian] @ asc ''3'' @ [yue]) = None"
    by (simp add: strict_eval char_eval)
  have d: "segmented_search_exact_six db_two [] (asc ''2024'' @ [nian] @ asc ''3'' @ [yue]) [] [] [] []
       = segmented_search_exact_six db_two [] [] [] [] [] []"
    using i n by (intro search_date_dropped) simp
  have p: "asc ''2024-03-05'' @ [37] = asc ''2024-03-05%''" by (simp add: asc_def)
  have d': "segmented_search_exact_six db_two [] (asc ''2024'' @ [nian] @ asc ''3'' @ [yue]) [] [] [] []
       = [row_march, row_december]"
    by (simp only: d c)
  have r1: "row_march \<in> set (meetings db_two)" by (simp add: db_two_rows)
  have r2: "row_date row_march = date_0305_cn" by (simp add: row_march_def)
  have r3: "map snd (date_clause date_0305_cn) = [asc ''2024-03-05%'']" by (simp add: dc p)
  show ?thesis
    by (intro conjI r1 r2 r3 e c n d')
qed

subsection \<open>Years, months and days in ASCII digits\<close>

text \<open>
  The normalizer passes each group through \<open>int\<close> and renders the number again. For a
  group of ASCII digits without a leading zero the rendering is the group itself, so
  such a date in the Chinese form comes back as it was written; a leading zero is
  dropped and digits of another script come back as ASCII digits.
\<close>

lemma decimal_ascii: "48 \<le> c \<Longrightarrow> c \<le> 57 \<Longrightarrow> decimal c = Some (c - 48)"
  by (simp add: decimal_def decimal_bases_def)

lemma int_of_str_snoc:
  "int_of_str (g @ [c]) = 10 * int_of_str g + (case decimal c of Some v \<Rightarrow> v | None \<Rightarrow> 0)"
  by (simp add: int_of_str_def)

lemma int_of_str_pos:
  assumes "list_all (\<lambda>c. 48 \<le> c \<and> c \<le> 57) g" and "g \<noteq> []" and "hd g \<noteq> 48"
  shows "0 < int_of_str g"
  using assms
proof (induction g rule: rev_induct)
  case Nil
  then show ?case by simp
next
  case (snoc c g)
  show ?case
  proof (cases "g = []")
    case True
    with snoc.prems show ?thesis by (simp add: int_of_str_def decimal_ascii)
  next
    case False
    with snoc have "0 < int_of_str g" by simp
    then show ?thesis by (simp add: int_of_str_snoc)
  qed
qed

lemma str_of_nat_int_of_str:
  assumes "list_all (\<lambda>c. 48 \<le> c \<and> c \<le> 57) g" and "g \<noteq> []" and "hd g \<noteq> 48 \<or> length g = 1"
  shows "str_of_nat (int_of_str g) = g"
  using assms
proof (induction g rule: rev_induct)
  case Nil
  then show ?case by simp
next
  case (snoc c g)
  from snoc.prems have c: "48 \<le> c" "c \<le> 57" by simp_all
  show ?case
  proof (cases "g = []")
    case True
    with c show ?thesis by (simp add: int_of_str_def decimal_ascii str_of_nat.simps)
  next
    case False
    with snoc.prems have g: "list_all (\<lambda>c. 48 \<le> c \<and> c \<le> 57) g" "hd g \<noteq> 48" by auto
    from int_of_str_pos [OF g(1) False g(2)] have pos: "0 < int_of_str g" .
    have IH: "str_of_nat (int_of_str g) = g" using snoc.IH g False by simp
    define v where "v = c - 48"
    with c have v: "v < 10" "c = 48 + v" by simp_all
    have n: "int_of_str (g @ [c]) = 10 * int_of_str g + v"
      using c by (simp add: int_of_str_snoc decimal_ascii v_def)
    have "str_of_nat (10 * int_of_str g + v)
          = str_of_nat ((10 * int_of_str g + v) div 10) @ [48 + (10 * int_of_str g + v) mod 10]"
      using pos by (subst str_of_nat.simps) simp
    moreover have "(10 * int_of_str g + v) div 10 = int_of_str g" using v(1) by simp
    moreover have "(10 * int_of_str g + v) mod 10 = v" using v(1) by simp
    ultimately have "str_of_nat (int_of_str (g @ [c])) = g @ [48 + v]"
      unfolding n using IH by simp
    then show ?thesis by (simp only: v(2))
  qed
qed

end
